theory Spec2Isabelle
  imports Main "HOL-Library.Sublist"
begin

section \<open>Python values\<close>

text \<open>
  A Python \<^verbatim>\<open>str\<close> is a sequence of Unicode code points, and \<^verbatim>\<open>len\<close> counts code
  points, so a string is a list of natural numbers. \<open>ustr\<close> turns an ASCII literal into
  such a list.
\<close>

type_synonym pystr = "nat list"

definition ustr :: "string \<Rightarrow> pystr" where
  "ustr s = map of_char s"

text \<open>
  A float is kept as the decimal literal it was read from: sign, digits and decimal
  exponent (\<open>FDec neg m e\<close> is the binary64 nearest to \<open>\<plusminus> m * 10^e\<close>), or one of the
  constants \<^verbatim>\<open>NaN\<close>, \<^verbatim>\<open>Infinity\<close>, \<^verbatim>\<open>-Infinity\<close> that \<^verbatim>\<open>json.loads\<close> accepts.
\<close>

datatype pyfloat = FDec bool nat int | FNaN | FInf bool

text \<open>
  The values \<^verbatim>\<open>json.loads\<close> and the salvage mode produce. A \<^verbatim>\<open>dict\<close> is the list of
  its items in insertion order (the order \<^verbatim>\<open>.items()\<close> iterates in); its keys are strings.
\<close>

datatype pyval =
    PNone
  | PBool bool
  | PInt int
  | PFloat pyfloat
  | PStr pystr
  | PList "pyval list"
  | PDict "(pystr \<times> pyval) list"

type_synonym pydict = "(pystr \<times> pyval) list"

datatype py_exn =
    OSError
  | UnicodeDecodeError
  | UnicodeEncodeError
  | ValueError
  | AttributeError
  | IndexError

text \<open>
  \<^verbatim>\<open>float(text) == 0.0\<close>: the conversion rounds to nearest, ties to even, so the result is
  zero exactly when the magnitude of the literal is at most \<open>2^-1075\<close>, half the least
  subnormal.
\<close>

fun float_is_zero :: "pyfloat \<Rightarrow> bool" where
  "float_is_zero (FDec neg m e) = (m = 0 \<or> (e < 0 \<and> m * 2 ^ 1075 \<le> 10 ^ nat (- e)))"
| "float_is_zero FNaN = False"
| "float_is_zero (FInf neg) = False"

text \<open>Truth value testing, as \<^verbatim>\<open>not x\<close> and \<^verbatim>\<open>if x\<close> do it.\<close>

fun truthy :: "pyval \<Rightarrow> bool" where
  "truthy PNone = False"
| "truthy (PBool b) = b"
| "truthy (PInt i) = (i \<noteq> 0)"
| "truthy (PFloat f) = (\<not> float_is_zero f)"
| "truthy (PStr s) = (s \<noteq> [])"
| "truthy (PList xs) = (xs \<noteq> [])"
| "truthy (PDict kvs) = (kvs \<noteq> [])"

fun nat_str :: "nat \<Rightarrow> pystr" where
  "nat_str n = (if n < 10 then [48 + n] else nat_str (n div 10) @ [48 + n mod 10])"

declare nat_str.simps [simp del]

definition int_str :: "int \<Rightarrow> pystr" where
  "int_str i = (if i < 0 then 45 # nat_str (nat (- i)) else nat_str (nat i))"

text \<open>
  \<^verbatim>\<open>str(v)\<close>. The text of a float, a list or a dict is their \<^verbatim>\<open>repr\<close>, which needs the
  shortest round-trip printing of floats and the table of printable characters: it is
  the parameter \<open>repr\<close>.
\<close>

fun py_str :: "(pyval \<Rightarrow> pystr) \<Rightarrow> pyval \<Rightarrow> pystr" where
  "py_str repr (PStr s) = s"
| "py_str repr PNone = ustr ''None''"
| "py_str repr (PBool b) = (if b then ustr ''True'' else ustr ''False'')"
| "py_str repr (PInt i) = int_str i"
| "py_str repr v = repr v"

text \<open>\<^verbatim>\<open>key in d\<close> and \<^verbatim>\<open>d.get(key)\<close> (\<open>None\<close> for an absent key).\<close>

definition dict_contains :: "pystr \<Rightarrow> pydict \<Rightarrow> bool" where
  "dict_contains k d = (map_of d k \<noteq> None)"

definition dict_get :: "pydict \<Rightarrow> pystr \<Rightarrow> pyval" where
  "dict_get d k = (case map_of d k of None \<Rightarrow> PNone | Some v \<Rightarrow> v)"

text \<open>\<^verbatim>\<open>d[key] = value\<close>: a key already present keeps its place.\<close>

fun dict_set :: "pydict \<Rightarrow> pystr \<Rightarrow> pyval \<Rightarrow> pydict" where
  "dict_set [] k v = [(k, v)]"
| "dict_set ((k', v') # d) k v = (if k' = k then (k', v) # d else (k', v') # dict_set d k v)"

section \<open>Shape normalizer\<close>

definition possible_keys :: "pystr list" where
  "possible_keys =
     [ustr ''conversation_turns'', ustr ''vector_data'', ustr ''data'', ustr ''chats'',
      ustr ''context'']"

text \<open>The loop over \<^verbatim>\<open>possible_keys\<close>; \<open>None\<close> when it ends without returning.\<close>

fun probe_keys :: "pydict \<Rightarrow> pystr list \<Rightarrow> pyval list option" where
  "probe_keys d [] = None"
| "probe_keys d (key # keys) =
     (case map_of d key of
        Some (PList xs) \<Rightarrow> Some xs
      | _ \<Rightarrow> probe_keys d keys)"

fun extract_list_from_data :: "pyval \<Rightarrow> pyval list" where
  "extract_list_from_data (PList xs) = xs"
| "extract_list_from_data (PDict d) =
     (case probe_keys d possible_keys of
        Some xs \<Rightarrow> xs
      | None \<Rightarrow>
          if dict_contains (ustr ''message'') d \<or> dict_contains (ustr ''text'') d
          then [PDict d] else [])"
| "extract_list_from_data v = []"

section \<open>Field resolver\<close>

definition query_keys :: "pystr list" where
  "query_keys = [ustr ''user_query'', ustr ''message'', ustr ''query'', ustr ''text'']"

definition response_keys :: "pystr list" where
  "response_keys = [ustr ''bot_response'', ustr ''response'', ustr ''answer'']"

definition context_keys :: "pystr list" where
  "context_keys = [ustr ''text'', ustr ''context'', ustr ''chunks'']"

text \<open>\<^verbatim>\<open>chat.get('role') != 'AI/Chatbot'\<close>\<close>

definition role_not_ai :: "pydict \<Rightarrow> bool" where
  "role_not_ai chat = (dict_get chat (ustr ''role'') \<noteq> PStr (ustr ''AI/Chatbot''))"

text \<open>
  The loop \<^verbatim>\<open>for k, v in chat.items()\<close> over the items still to visit, with the pair
  \<open>(query, response)\<close> as its state.
\<close>

fun key_search :: "pydict \<Rightarrow> pydict \<Rightarrow> pyval \<times> pyval \<Rightarrow> pyval \<times> pyval" where
  "key_search chat [] (query, response) = (query, response)"
| "key_search chat ((k, v) # items) (query, response) =
     key_search chat items
       (if k \<in> set query_keys \<and> \<not> truthy query
        then (if role_not_ai chat then v else query)
        else query,
        if k \<in> set response_keys \<and> \<not> truthy response then v else response)"

text \<open>The query after the loop, and after the fallback of line 168.\<close>

definition keyed_query :: "pydict \<Rightarrow> pyval" where
  "keyed_query chat = fst (key_search chat chat (PNone, PNone))"

definition resolve_query :: "pydict \<Rightarrow> pyval" where
  "resolve_query chat =
     (let query = keyed_query chat in
      if \<not> truthy query \<and> dict_contains (ustr ''message'') chat
      then dict_get chat (ustr ''message'') else query)"

definition resolve_response :: "pydict \<Rightarrow> pyval" where
  "resolve_response chat = snd (key_search chat chat (PNone, PNone))"

text \<open>The response handed to the evaluator (lines 183 and 188).\<close>

definition forwarded_response :: "(pyval \<Rightarrow> pystr) \<Rightarrow> pydict \<Rightarrow> pystr" where
  "forwarded_response repr chat =
     (let response = resolve_response chat in
      py_str repr (if \<not> truthy response then PStr (ustr ''Generated Response'') else response))"

fun context_scan :: "(pyval \<Rightarrow> pystr) \<Rightarrow> pydict \<Rightarrow> pystr \<Rightarrow> pystr" where
  "context_scan repr [] context_text = context_text"
| "context_scan repr ((k, v) # items) context_text =
     context_scan repr items (if k \<in> set context_keys then py_str repr v else context_text)"

definition resolve_context :: "(pyval \<Rightarrow> pystr) \<Rightarrow> pyval \<Rightarrow> pystr" where
  "resolve_context repr ctx =
     (case ctx of
        PDict d \<Rightarrow> context_scan repr d (ustr ''Context Not Found'')
      | _ \<Rightarrow> py_str repr ctx)"

text \<open>
  The evaluator is an external collaborator. What is recorded of a pair is whether the
  evaluator was called on it, and with which three arguments: the query as the value it
  is, the context and the response as strings.
\<close>

datatype outcome = Skipped | Evaluated pyval pystr pystr

definition gate :: "(pyval \<Rightarrow> pystr) \<Rightarrow> pyval \<Rightarrow> bool" where
  "gate repr query = (truthy query \<and> 5 < length (py_str repr query))"

section \<open>Text helpers of the standard library\<close>

text \<open>
  The characters \<^verbatim>\<open>str.isspace\<close> accepts; \<^verbatim>\<open>str.strip()\<close> removes them and the regular
  expression class \<^verbatim>\<open>\s\<close> matches them.
\<close>

definition py_isspace :: "nat \<Rightarrow> bool" where
  "py_isspace c =
     ((9 \<le> c \<and> c \<le> 13) \<or> (28 \<le> c \<and> c \<le> 32) \<or> c = 133 \<or> c = 160 \<or> c = 5760 \<or>
      (8192 \<le> c \<and> c \<le> 8202) \<or> c = 8232 \<or> c = 8233 \<or> c = 8239 \<or> c = 8287 \<or> c = 12288)"

text \<open>The line boundaries of \<^verbatim>\<open>str.splitlines\<close>, other than the pair CR LF.\<close>

definition line_boundary :: "nat \<Rightarrow> bool" where
  "line_boundary c =
     ((10 \<le> c \<and> c \<le> 13) \<or> (28 \<le> c \<and> c \<le> 30) \<or> c = 133 \<or> c = 8232 \<or> c = 8233)"

text \<open>\<^verbatim>\<open>splitlines\<close>, with the line read so far as first argument.\<close>

fun splitlines_from :: "pystr \<Rightarrow> pystr \<Rightarrow> pystr list" where
  "splitlines_from line [] = (if line = [] then [] else [line])"
| "splitlines_from line [c] =
     (if line_boundary c then [line] else [line @ [c]])"
| "splitlines_from line (c # d # rest) =
     (if c = 13 \<and> d = 10 then line # splitlines_from [] rest
      else if line_boundary c then line # splitlines_from [] (d # rest)
      else splitlines_from (line @ [c]) (d # rest))"

definition splitlines :: "pystr \<Rightarrow> pystr list" where
  "splitlines s = splitlines_from [] s"

definition strip :: "pystr \<Rightarrow> pystr" where
  "strip s = rev (dropWhile py_isspace (rev (dropWhile py_isspace s)))"

text \<open>\<^verbatim>\<open>"\n".join(lines)\<close>\<close>

fun join_lines :: "pystr list \<Rightarrow> pystr" where
  "join_lines [] = []"
| "join_lines [l] = l"
| "join_lines (l # m # ls) = l @ 10 # join_lines (m # ls)"

section \<open>The escape decoder\<close>

text \<open>
  The tables of the Unicode character database that the salvage mode reaches: the
  characters outside ASCII that \<^verbatim>\<open>str.isdigit\<close> accepts, and the code point of a character
  name (given as bytes), for the escape \<^verbatim>\<open>\N{...}\<close>.
\<close>

record unicodedata =
  digit_char :: "nat \<Rightarrow> bool"
  lookup_name :: "nat list \<Rightarrow> nat option"

definition is_ascii_digit :: "nat \<Rightarrow> bool" where
  "is_ascii_digit c = (48 \<le> c \<and> c \<le> 57)"

text \<open>\<^verbatim>\<open>str.isdigit\<close>: at least one character, and every character a digit.\<close>

definition py_isdigit :: "unicodedata \<Rightarrow> pystr \<Rightarrow> bool" where
  "py_isdigit ucd s =
     (s \<noteq> [] \<and> list_all (\<lambda>c. if c < 128 then is_ascii_digit c else digit_char ucd c) s)"

text \<open>\<^verbatim>\<open>c.encode('utf-8')\<close> of one code point; a surrogate cannot be encoded.\<close>

definition utf8_char :: "nat \<Rightarrow> nat list option" where
  "utf8_char c =
     (if c < 128 then Some [c]
      else if c < 2048 then Some [192 + c div 64, 128 + c mod 64]
      else if 55296 \<le> c \<and> c \<le> 57343 then None
      else if c < 65536 then Some [224 + c div 4096, 128 + c div 64 mod 64, 128 + c mod 64]
      else Some [240 + c div 262144, 128 + c div 4096 mod 64, 128 + c div 64 mod 64,
                 128 + c mod 64])"

fun utf8_encode :: "pystr \<Rightarrow> py_exn + nat list" where
  "utf8_encode [] = Inr []"
| "utf8_encode (c # s) =
     (case utf8_char c of
        None \<Rightarrow> Inl UnicodeEncodeError
      | Some bs \<Rightarrow> (case utf8_encode s of Inl e \<Rightarrow> Inl e | Inr rest \<Rightarrow> Inr (bs @ rest)))"

definition hex_digit :: "nat \<Rightarrow> nat option" where
  "hex_digit c =
     (if 48 \<le> c \<and> c \<le> 57 then Some (c - 48)
      else if 97 \<le> c \<and> c \<le> 102 then Some (c - 87)
      else if 65 \<le> c \<and> c \<le> 70 then Some (c - 55)
      else None)"

fun hex_value :: "nat \<Rightarrow> nat list \<Rightarrow> nat option" where
  "hex_value acc [] = Some acc"
| "hex_value acc (c # s) =
     (case hex_digit c of None \<Rightarrow> None | Some h \<Rightarrow> hex_value (16 * acc + h) s)"

text \<open>Exactly \<open>n\<close> hexadecimal digits at the front of \<open>s\<close>.\<close>

definition hex_escape :: "nat \<Rightarrow> nat list \<Rightarrow> nat option" where
  "hex_escape n s = (if length s < n then None else hex_value 0 (take n s))"

definition is_octal :: "nat \<Rightarrow> bool" where
  "is_octal c = (48 \<le> c \<and> c \<le> 55)"

fun octal_value :: "nat \<Rightarrow> nat list \<Rightarrow> nat" where
  "octal_value acc [] = acc"
| "octal_value acc (c # s) = octal_value (8 * acc + (c - 48)) s"

text \<open>The character of a one-letter escape, if it is one.\<close>

definition simple_escape :: "nat \<Rightarrow> nat option" where
  "simple_escape c =
     (if c = 92 then Some 92 else if c = 39 then Some 39 else if c = 34 then Some 34
      else if c = 98 then Some 8 else if c = 102 then Some 12 else if c = 116 then Some 9
      else if c = 110 then Some 10 else if c = 114 then Some 13 else if c = 118 then Some 11
      else if c = 97 then Some 7 else None)"

text \<open>
  One escape of the codec \<^verbatim>\<open>unicode_escape\<close>, read from the bytes after a backslash: the
  characters it stands for and the number of bytes it takes. \<open>None\<close> is the
  \<^verbatim>\<open>UnicodeDecodeError\<close> of a truncated or malformed escape. A backslash before a line
  feed stands for nothing, and an escape the codec does not know is kept as it stands.
\<close>

definition decode_escape :: "unicodedata \<Rightarrow> nat list \<Rightarrow> (pystr \<times> nat) option" where
  "decode_escape ucd s =
     (case s of
        [] \<Rightarrow> None
      | c # t \<Rightarrow>
          if c = 10 then Some ([], 1)
          else if simple_escape c \<noteq> None then Some ([the (simple_escape c)], 1)
          else if is_octal c then
            (let more = takeWhile is_octal (take 2 t)
             in Some ([octal_value 0 (c # more)], 1 + length more))
          else if c = 120 then map_option (\<lambda>v. ([v], 3)) (hex_escape 2 t)
          else if c = 117 then map_option (\<lambda>v. ([v], 5)) (hex_escape 4 t)
          else if c = 85 then
            (case hex_escape 8 t of
               None \<Rightarrow> None
             | Some v \<Rightarrow> if v > 1114111 then None else Some ([v], 9))
          else if c = 78 then
            (case t of
               [] \<Rightarrow> None
             | open_brace # t' \<Rightarrow>
                 (let name = takeWhile (\<lambda>x. x \<noteq> 125) t' in
                  if open_brace \<noteq> 123 \<or> length name = length t' \<or> name = [] then None
                  else map_option (\<lambda>v. ([v], 3 + length name)) (lookup_name ucd name)))
          else Some ([92, c], 1))"

text \<open>
  \<^verbatim>\<open>bytes.decode('unicode_escape')\<close>: a byte that is not a backslash is the character with
  that number.
\<close>

fun unicode_escape :: "unicodedata \<Rightarrow> nat list \<Rightarrow> py_exn + pystr" where
  "unicode_escape ucd [] = Inr []"
| "unicode_escape ucd (b # s) =
     (if b \<noteq> 92 then
        (case unicode_escape ucd s of Inl e \<Rightarrow> Inl e | Inr r \<Rightarrow> Inr (b # r))
      else
        (case decode_escape ucd s of
           None \<Rightarrow> Inl UnicodeDecodeError
         | Some (out, n) \<Rightarrow>
             (case unicode_escape ucd (drop n s) of Inl e \<Rightarrow> Inl e | Inr r \<Rightarrow> Inr (out @ r))))"

section \<open>The console\<close>

text \<open>
  \<^verbatim>\<open>print(text)\<close> writes to the standard output, and raises where the text cannot be
  written: a \<^verbatim>\<open>UnicodeEncodeError\<close> where the encoding of the output has no place for one
  of its characters. A console is what a print of a text raises, if anything.
\<close>

type_synonym console = "pystr \<Rightarrow> py_exn option"

text \<open>The first exception raised when the texts are printed one after the other.\<close>

fun print_all :: "console \<Rightarrow> pystr list \<Rightarrow> py_exn option" where
  "print_all out [] = None"
| "print_all out (t # ts) = (case out t of Some e \<Rightarrow> Some e | None \<Rightarrow> print_all out ts)"

text \<open>
  A standard output encoded in UTF-8 writes every text but one with a lone surrogate; one
  encoded in ASCII writes the texts of ASCII characters only.
\<close>

definition utf8_console :: console where
  "utf8_console t = (case utf8_encode t of Inl e \<Rightarrow> Some e | Inr bytes \<Rightarrow> None)"

definition ascii_console :: console where
  "ascii_console t = (if list_all (\<lambda>c. c < 128) t then None else Some UnicodeEncodeError)"

text \<open>The messages of \<^verbatim>\<open>load_robust_json\<close> (lines 63, 76, 97, 100 and 104).\<close>

definition msg_loading :: "pystr \<Rightarrow> pystr" where
  "msg_loading filename = 128194 # ustr '' Loading '' @ filename @ ustr ''...''"

definition msg_syntax_error :: pystr where
  "msg_syntax_error =
     ustr ''   '' @ [9888, 65039] @ ustr '' Syntax error detected. Switching to '' @ [39] @
     ustr ''Regex Scraper'' @ [39] @ ustr '' to extract raw text...''"

definition msg_regex_failed :: "pystr \<Rightarrow> pystr" where
  "msg_regex_failed filename =
     ustr ''   '' @ [10060] @ ustr '' Regex failed to find any data in '' @ filename"

definition msg_found :: "nat \<Rightarrow> pystr" where
  "msg_found n =
     ustr ''   '' @ [9989] @ ustr '' Regex Scraper found '' @ nat_str n @ ustr '' fragments!''"

definition msg_critical :: "pystr \<Rightarrow> pystr \<Rightarrow> pystr" where
  "msg_critical filename e =
     10060 # ustr '' CRITICAL ERROR reading '' @ filename @ ustr '': '' @ e"

text \<open>The messages of the main program (lines 130, 149, 180, 181, 191, 193 and 195).\<close>

definition msg_starting :: pystr where
  "msg_starting = 128640 # ustr '' Starting Evaluation Pipeline...'' @ [10]"

definition msg_processing :: "nat \<Rightarrow> pystr" where
  "msg_processing limit = 10 # ustr ''Processing '' @ nat_str limit @ ustr '' valid pairs...''"

definition msg_evaluating :: "nat \<Rightarrow> pystr" where
  "msg_evaluating i =
     ustr ''--- '' @ [128221] @ ustr '' Evaluating Conversation '' @ nat_str (i + 1) @ ustr '' ---''"

definition msg_query :: "(pyval \<Rightarrow> pystr) \<Rightarrow> pyval \<Rightarrow> pystr" where
  "msg_query repr query = ustr ''Query: '' @ take 100 (py_str repr query) @ ustr ''...''"

definition msg_result :: pystr where
  "msg_result = ustr ''Result:''"

definition msg_rule :: pystr where
  "msg_rule = replicate 50 45 @ [10]"

definition msg_could_not_load :: pystr where
  "msg_could_not_load = [10, 10060] @ ustr '' Could not load data.''"

section \<open>The two patterns of the salvage mode\<close>

text \<open>
  Both patterns have the shape
  \<^verbatim>\<open>Q(user_query|message|query|text|response|bot_response)Q:\s*Q((?:[^Q\\]|\\.)*)Q\<close>
  with \<open>Q\<close> the double quote in the first and the single quote in the second. The
  matcher below follows the backtracking search of \<^verbatim>\<open>re\<close>: each construct lists the ways
  it can match in the order the engine tries them, and the first way that lets the rest
  of the pattern match is taken.
\<close>

definition salvage_keys :: "pystr list" where
  "salvage_keys =
     [ustr ''user_query'', ustr ''message'', ustr ''query'', ustr ''text'', ustr ''response'',
      ustr ''bot_response'']"

text \<open>The first result among the alternatives, tried in order.\<close>

fun first_some :: "('a \<Rightarrow> 'b option) \<Rightarrow> 'a list \<Rightarrow> 'b option" where
  "first_some f [] = None"
| "first_some f (x # xs) = (case f x of Some y \<Rightarrow> Some y | None \<Rightarrow> first_some f xs)"

text \<open>The greedy \<^verbatim>\<open>\s*\<close>: the rests of the text it can leave, longest match first.\<close>

definition space_star :: "pystr \<Rightarrow> pystr list" where
  "space_star s = map (\<lambda>n. drop n s) (rev [0..<Suc (length (takeWhile py_isspace s))])"

text \<open>
  One round of the group \<^verbatim>\<open>(?:[^Q\\]|\\.)\<close>: a character other than the quote and the
  backslash, or a backslash and a character other than a line feed. The result is what
  the round consumed and the rest.
\<close>

definition value_atom :: "nat \<Rightarrow> pystr \<Rightarrow> (pystr \<times> pystr) option" where
  "value_atom q s =
     (case s of
        [] \<Rightarrow> None
      | c # t \<Rightarrow>
          if c \<noteq> q \<and> c \<noteq> 92 then Some ([c], t)
          else if c = 92 then
            (case t of [] \<Rightarrow> None | d # t' \<Rightarrow> if d \<noteq> 10 then Some ([c, d], t') else None)
          else None)"

text \<open>
  The greedy star over that group: what it can capture, with the rest of the text, most
  rounds first. \<open>seen\<close> is the text of the rounds done.
\<close>

function value_star :: "nat \<Rightarrow> pystr \<Rightarrow> pystr \<Rightarrow> (pystr \<times> pystr) list" where
  "value_star q seen s =
     (case value_atom q s of
        None \<Rightarrow> [(seen, s)]
      | Some (a, t) \<Rightarrow> value_star q (seen @ a) t @ [(seen, s)])"
  by pat_completeness auto
termination
  by (relation "measure (\<lambda>(q, seen, s). length s)")
     (auto simp: value_atom_def split: list.splits if_splits)

text \<open>The closing quote after a capture: the pair found and the text after the match.\<close>

definition close_quote :: "nat \<Rightarrow> pystr \<Rightarrow> pystr \<times> pystr \<Rightarrow> ((pystr \<times> pystr) \<times> pystr) option" where
  "close_quote q key cap =
     (case snd cap of
        [] \<Rightarrow> None
      | c # rest \<Rightarrow> if c = q then Some ((key, fst cap), rest) else None)"

text \<open>The opening quote of the value, then the capture and the closing quote.\<close>

definition open_quote :: "nat \<Rightarrow> pystr \<Rightarrow> pystr \<Rightarrow> ((pystr \<times> pystr) \<times> pystr) option" where
  "open_quote q key s =
     (case s of
        [] \<Rightarrow> None
      | c # t \<Rightarrow> if c = q then first_some (close_quote q key) (value_star q [] t) else None)"

text \<open>One alternative of the key group, from the opening quote of the key on.\<close>

definition match_key :: "nat \<Rightarrow> pystr \<Rightarrow> pystr \<Rightarrow> ((pystr \<times> pystr) \<times> pystr) option" where
  "match_key q s key =
     (if prefix (q # key @ [q, 58]) s
      then first_some (open_quote q key) (space_star (drop (length key + 3) s))
      else None)"

text \<open>A match of the whole pattern that starts at the front of \<open>s\<close>.\<close>

definition match_here :: "nat \<Rightarrow> pystr \<Rightarrow> ((pystr \<times> pystr) \<times> pystr) option" where
  "match_here q s = first_some (match_key q s) salvage_keys"

lemma first_some_Some: "first_some f xs = Some y \<Longrightarrow> \<exists>x\<in>set xs. f x = Some y"
  by (induction xs) (auto split: option.splits)

lemma value_atom_shorter: "value_atom q s = Some (a, t) \<Longrightarrow> length t < length s"
  by (auto simp: value_atom_def split: list.splits if_splits)

lemma value_star_rest: "(cap, r) \<in> set (value_star q seen s) \<Longrightarrow> length r \<le> length s"
proof (induction q seen s rule: value_star.induct)
  case (1 q seen s)
  show ?case
  proof (cases "value_atom q s")
    case None
    with "1.prems" show ?thesis by (subst (asm) value_star.simps) simp
  next
    case (Some at)
    obtain a t where at: "at = (a, t)" by (cases at)
    from "1.prems" Some at have "(cap, r) \<in> set (value_star q (seen @ a) t) \<or> r = s"
      by (subst (asm) value_star.simps) auto
    then show ?thesis
    proof
      assume "(cap, r) \<in> set (value_star q (seen @ a) t)"
      from "1.IH" [OF Some at [symmetric] this] value_atom_shorter [of q s a t] Some at
      show ?thesis by simp
    qed simp
  qed
qed

lemma close_quote_Some:
  "close_quote q key cap = Some (kv, rest) \<Longrightarrow> length rest < length (snd cap) \<and> fst kv = key"
  by (auto simp: close_quote_def split: list.splits if_splits)

lemma open_quote_Some:
  "open_quote q key s = Some (kv, rest) \<Longrightarrow> length rest < length s \<and> fst kv = key"
proof -
  assume a: "open_quote q key s = Some (kv, rest)"
  then obtain c t where s: "s = c # t" "first_some (close_quote q key) (value_star q [] t) = Some (kv, rest)"
    by (auto simp: open_quote_def split: list.splits if_splits)
  then obtain cap where cap: "cap \<in> set (value_star q [] t)" "close_quote q key cap = Some (kv, rest)"
    by (blast dest: first_some_Some)
  from cap(1) have "length (snd cap) \<le> length t" using value_star_rest [of "fst cap" "snd cap" q "[]" t] by simp
  with close_quote_Some [OF cap(2)] s(1) show ?thesis by simp
qed

lemma space_star_rest: "x \<in> set (space_star s) \<Longrightarrow> length x \<le> length s"
  by (auto simp: space_star_def)

lemma match_key_Some:
  "match_key q s key = Some (kv, rest) \<Longrightarrow> length rest < length s \<and> fst kv = key"
proof -
  assume a: "match_key q s key = Some (kv, rest)"
  then have f: "first_some (open_quote q key) (space_star (drop (length key + 3) s)) = Some (kv, rest)"
    by (auto simp: match_key_def split: if_splits)
  then obtain x where x: "x \<in> set (space_star (drop (length key + 3) s))" "open_quote q key x = Some (kv, rest)"
    by (blast dest: first_some_Some)
  from space_star_rest [OF x(1)] have "length x \<le> length s" by simp
  with open_quote_Some [OF x(2)] show ?thesis by simp
qed

lemma match_here_Some:
  "match_here q s = Some (kv, rest) \<Longrightarrow> length rest < length s \<and> fst kv \<in> set salvage_keys"
  unfolding match_here_def by (blast dest: first_some_Some match_key_Some)

text \<open>
  \<^verbatim>\<open>re.findall\<close>: the matches from left to right, none overlapping another; with two
  groups each match gives the pair of their texts. After a match the search goes on
  behind it.
\<close>

function findall :: "nat \<Rightarrow> pystr \<Rightarrow> (pystr \<times> pystr) list" where
  "findall q [] = []"
| "findall q (c # s) =
     (case match_here q (c # s) of
        None \<Rightarrow> findall q s
      | Some (kv, rest) \<Rightarrow> kv # findall q rest)"
  by pat_completeness auto
termination
proof (relation "measure (\<lambda>(q, s). length s)", goal_cases)
  case 1 show ?case by simp
next
  case (2 q c s) show ?case by simp
next
  case (3 q c s x kv rest)
  then show ?case using match_here_Some [of q "c # s" kv rest] by simp
qed

section \<open>json.loads\<close>

text \<open>
  The decoder of the standard library with its default settings, as CPython's scanner
  runs it. Every function takes the text still to read and gives the value read with the
  text after it; \<open>None\<close> is the \<^verbatim>\<open>JSONDecodeError\<close> (a \<^verbatim>\<open>ValueError\<close>) the
  decoder raises. The recursion limit of the interpreter, which ends the decoding of a
  very deeply nested text with a \<^verbatim>\<open>RecursionError\<close>, is left out.
\<close>

definition json_space :: "nat \<Rightarrow> bool" where
  "json_space c = (c = 32 \<or> c = 9 \<or> c = 10 \<or> c = 13)"

definition skip_ws :: "pystr \<Rightarrow> pystr" where
  "skip_ws s = dropWhile json_space s"

text \<open>The character of a one-letter escape inside a string (the table \<^verbatim>\<open>BACKSLASH\<close>).\<close>

definition json_backslash :: "nat \<Rightarrow> nat option" where
  "json_backslash c =
     (if c = 34 then Some 34 else if c = 92 then Some 92 else if c = 47 then Some 47
      else if c = 98 then Some 8 else if c = 102 then Some 12 else if c = 110 then Some 10
      else if c = 114 then Some 13 else if c = 116 then Some 9 else None)"

text \<open>
  An escape \<^verbatim>\<open>\uXXXX\<close>, read from the text after the \<^verbatim>\<open>u\<close>: the character and the number
  of characters taken. A high surrogate followed by the escape of a low surrogate makes
  one character with it.
\<close>

definition unicode_char :: "pystr \<Rightarrow> (nat \<times> nat) option" where
  "unicode_char s =
     (case hex_escape 4 s of
        None \<Rightarrow> None
      | Some uni \<Rightarrow>
          if 55296 \<le> uni \<and> uni \<le> 56319 \<and> take 2 (drop 4 s) = [92, 117] then
            (case hex_escape 4 (drop 6 s) of
               None \<Rightarrow> None
             | Some uni2 \<Rightarrow>
                 if 56320 \<le> uni2 \<and> uni2 \<le> 57343
                 then Some (65536 + ((uni - 55296) * 1024 + (uni2 - 56320)), 10)
                 else Some (uni, 4))
          else Some (uni, 4))"

text \<open>
  \<^verbatim>\<open>scanstring\<close> in strict mode, from the character after the opening quote, with the
  characters read so far.
\<close>

fun scanstring :: "pystr \<Rightarrow> pystr \<Rightarrow> (pystr \<times> pystr) option" where
  "scanstring chunks [] = None"
| "scanstring chunks (c # s) =
     (if c = 34 then Some (chunks, s)
      else if c < 32 then None
      else if c \<noteq> 92 then scanstring (chunks @ [c]) s
      else (case s of
              [] \<Rightarrow> None
            | esc # t \<Rightarrow>
                if esc \<noteq> 117 then
                  (case json_backslash esc of
                     None \<Rightarrow> None
                   | Some ch \<Rightarrow> scanstring (chunks @ [ch]) t)
                else
                  (case unicode_char t of
                     None \<Rightarrow> None
                   | Some (ch, n) \<Rightarrow> scanstring (chunks @ [ch]) (drop n t))))"

fun digits_value :: "nat \<Rightarrow> pystr \<Rightarrow> nat" where
  "digits_value acc [] = acc"
| "digits_value acc (c # s) = digits_value (10 * acc + (c - 48)) s"

text \<open>
  The integer part of a number: a single \<^verbatim>\<open>0\<close>, or a digit from 1 to 9 and the digits
  after it.
\<close>

definition int_digits :: "pystr \<Rightarrow> pystr" where
  "int_digits s =
     (case s of
        [] \<Rightarrow> []
      | c # t \<Rightarrow>
          if c = 48 then [c]
          else if 49 \<le> c \<and> c \<le> 57 then c # takeWhile is_ascii_digit t
          else [])"

text \<open>The fraction: a point and at least one digit. The result is the digits.\<close>

definition frac_digits :: "pystr \<Rightarrow> pystr" where
  "frac_digits s =
     (case s of
        [] \<Rightarrow> []
      | c # t \<Rightarrow> if c = 46 then takeWhile is_ascii_digit t else [])"

text \<open>
  The exponent: \<^verbatim>\<open>e\<close> or \<^verbatim>\<open>E\<close>, a sign if there is one, and at least one digit. The result
  is its value and its length.
\<close>

definition exponent :: "pystr \<Rightarrow> (int \<times> nat) option" where
  "exponent s =
     (case s of
        [] \<Rightarrow> None
      | c # t \<Rightarrow>
          if c = 101 \<or> c = 69 then
            (let signed = (case t of [] \<Rightarrow> False | d # u \<Rightarrow> d = 45 \<or> d = 43);
                 negative = (case t of [] \<Rightarrow> False | d # u \<Rightarrow> d = 45);
                 ds = takeWhile is_ascii_digit (if signed then drop 1 t else t)
             in if ds = [] then None
                else Some (if negative then - int (digits_value 0 ds) else int (digits_value 0 ds),
                           1 + (if signed then 1 else 0) + length ds))
          else None)"

text \<open>
  A number. With a fraction or an exponent it is a float, else an \<^verbatim>\<open>int\<close>; \<^verbatim>\<open>int\<close>
  refuses a text of more than 4300 digits with a \<^verbatim>\<open>ValueError\<close>.
\<close>

definition match_number :: "pystr \<Rightarrow> (pyval \<times> pystr) option" where
  "match_number s =
     (let negative = (case s of [] \<Rightarrow> False | c # t \<Rightarrow> c = 45);
          s1 = (if negative then drop 1 s else s);
          ip = int_digits s1;
          s2 = drop (length ip) s1;
          fp = frac_digits s2;
          s3 = (if fp = [] then s2 else drop (1 + length fp) s2)
      in if ip = [] then None
         else (case exponent s3 of
                 Some (e, n) \<Rightarrow>
                   Some (PFloat (FDec negative (digits_value 0 (ip @ fp)) (e - int (length fp))),
                         drop n s3)
               | None \<Rightarrow>
                   if fp \<noteq> [] then
                     Some (PFloat (FDec negative (digits_value 0 (ip @ fp)) (- int (length fp))), s3)
                   else if length ip > 4300 then None
                   else Some (PInt (if negative then - int (digits_value 0 ip)
                                    else int (digits_value 0 ip)), s3)))"

text \<open>The constants and the numbers: what \<^verbatim>\<open>scan_once\<close> tries after the three brackets.\<close>

definition scan_atom :: "pystr \<Rightarrow> (pyval \<times> pystr) option" where
  "scan_atom s =
     (if prefix (ustr ''null'') s then Some (PNone, drop 4 s)
      else if prefix (ustr ''true'') s then Some (PBool True, drop 4 s)
      else if prefix (ustr ''false'') s then Some (PBool False, drop 5 s)
      else if prefix (ustr ''NaN'') s then Some (PFloat FNaN, drop 3 s)
      else if prefix (ustr ''Infinity'') s then Some (PFloat (FInf False), drop 8 s)
      else if prefix (ustr ''-Infinity'') s then Some (PFloat (FInf True), drop 9 s)
      else match_number s)"

lemma length_skip_ws: "length (skip_ws s) \<le> length s"
  by (simp add: skip_ws_def length_dropWhile_le)

lemma skip_ws_Cons: "skip_ws s = d # r \<Longrightarrow> length r < length s"
  using length_skip_ws [of s] by simp

lemma hex_escape_length: "hex_escape n s = Some v \<Longrightarrow> n \<le> length s"
  by (auto simp: hex_escape_def split: if_splits)

lemma unicode_char_length: "unicode_char s = Some (ch, n) \<Longrightarrow> 0 < n \<and> n \<le> length s"
proof -
  assume a: "unicode_char s = Some (ch, n)"
  then obtain uni where u: "hex_escape 4 s = Some uni"
    by (auto simp: unicode_char_def split: option.splits)
  then have l4: "4 \<le> length s" by (rule hex_escape_length)
  show ?thesis
  proof (cases "n = 4")
    case True
    with l4 show ?thesis by simp
  next
    case False
    with a u obtain uni2 where "hex_escape 4 (drop 6 s) = Some uni2" "n = 10"
      by (auto simp: unicode_char_def split: option.splits if_splits)
    then show ?thesis using hex_escape_length [of 4 "drop 6 s" uni2] by simp
  qed
qed

lemma scanstring_shorter: "scanstring chunks s = Some (str, r) \<Longrightarrow> length r < length s"
proof (induction chunks s rule: scanstring.induct)
  case (1 chunks)
  then show ?case by simp
next
  case (2 chunks c s)
  show ?case
  proof (cases "c = 34")
    case True
    with "2.prems" show ?thesis by simp
  next
    case q: False
    show ?thesis
    proof (cases "c < 32")
      case True
      with q "2.prems" show ?thesis by simp
    next
      case ctl: False
      show ?thesis
      proof (cases "c = 92")
        case False
        with q ctl "2.prems" have "scanstring (chunks @ [c]) s = Some (str, r)" by simp
        with "2.IH"(1) [OF q ctl False] show ?thesis by simp
      next
        case bs: True
        with q ctl "2.prems" obtain esc t where s: "s = esc # t"
          by (cases s) auto
        show ?thesis
        proof (cases "esc = 117")
          case False
          with q ctl bs s "2.prems" obtain ch where
            ch: "json_backslash esc = Some ch" "scanstring (chunks @ [ch]) t = Some (str, r)"
            by (auto split: option.splits)
          from "2.IH"(2) [OF q ctl _ s False ch(1)] bs ch(2) have "length r < length t" by simp
          with s show ?thesis by simp
        next
          case True
          with q ctl bs s "2.prems" obtain ch n where
            ch: "unicode_char t = Some (ch, n)" "scanstring (chunks @ [ch]) (drop n t) = Some (str, r)"
            by (auto split: option.splits)
          from "2.IH"(3) [OF q ctl _ s _ ch(1)] bs True ch(2)
          have "length r < length (drop n t)" by simp
          with s show ?thesis by simp
        qed
      qed
    qed
  qed
qed

lemma match_number_shorter: "match_number s = Some (v, r) \<Longrightarrow> length r < length s"
proof -
  assume a: "match_number s = Some (v, r)"
  define neg where "neg = (case s of [] \<Rightarrow> False | c # t \<Rightarrow> c = 45)"
  define s1 where "s1 = (if neg then drop 1 s else s)"
  define ip where "ip = int_digits s1"
  define s2 where "s2 = drop (length ip) s1"
  define fp where "fp = frac_digits s2"
  define s3 where "s3 = (if fp = [] then s2 else drop (1 + length fp) s2)"
  note defs = neg_def s1_def ip_def s2_def fp_def s3_def
  have m: "match_number s =
     (if ip = [] then None
         else (case exponent s3 of
                 Some (e, n) \<Rightarrow>
                   Some (PFloat (FDec neg (digits_value 0 (ip @ fp)) (e - int (length fp))),
                         drop n s3)
               | None \<Rightarrow>
                   if fp \<noteq> [] then
                     Some (PFloat (FDec neg (digits_value 0 (ip @ fp)) (- int (length fp))), s3)
                   else if length ip > 4300 then None
                   else Some (PInt (if neg then - int (digits_value 0 ip)
                                    else int (digits_value 0 ip)), s3)))"
    unfolding match_number_def defs Let_def by (rule refl)
  from a m have ip: "ip \<noteq> []" by (auto split: if_splits)
  then have "s1 \<noteq> []" by (auto simp: ip_def int_digits_def)
  with ip have "length s2 < length s1" unfolding s2_def by (cases ip) auto
  moreover have "length s1 \<le> length s" by (simp add: s1_def)
  moreover have "length s3 \<le> length s2" by (simp add: s3_def)
  ultimately have s3: "length s3 < length s" by simp
  from a m ip have "r = s3 \<or> (\<exists>n. r = drop n s3)"
    by (auto split: if_splits option.splits)
  with s3 show ?thesis by auto
qed

lemma prefix_Cons_nonempty: "prefix (c # p) s \<Longrightarrow> 0 < length s"
  by (auto simp: prefix_def)

lemma scan_atom_shorter: "scan_atom s = Some (v, r) \<Longrightarrow> length r < length s"
proof -
  assume a: "scan_atom s = Some (v, r)"
  consider "prefix (ustr ''null'') s" "r = drop 4 s"
    | "prefix (ustr ''true'') s" "r = drop 4 s"
    | "prefix (ustr ''false'') s" "r = drop 5 s"
    | "prefix (ustr ''NaN'') s" "r = drop 3 s"
    | "prefix (ustr ''Infinity'') s" "r = drop 8 s"
    | "prefix (ustr ''-Infinity'') s" "r = drop 9 s"
    | "match_number s = Some (v, r)"
    using a unfolding scan_atom_def by (auto split: if_splits)
  then show ?thesis
  proof cases
    case 7
    then show ?thesis by (rule match_number_shorter)
  qed (auto simp: ustr_def dest!: prefix_Cons_nonempty)
qed

text \<open>
  \<^verbatim>\<open>scan_once\<close>, \<^verbatim>\<open>JSONArray\<close> and \<^verbatim>\<open>JSONObject\<close>. \<open>parse_array\<close> starts at a value of
  the array, with the values read so far; \<open>parse_object\<close> starts after the opening quote
  of a key, with the dict built so far.
\<close>

function parse_value :: "pystr \<Rightarrow> (pyval \<times> pystr) option"
  and parse_array :: "pyval list \<Rightarrow> pystr \<Rightarrow> (pyval \<times> pystr) option"
  and parse_object :: "pydict \<Rightarrow> pystr \<Rightarrow> (pyval \<times> pystr) option"
where
  "parse_value s =
     (case s of
        [] \<Rightarrow> None
      | c # t \<Rightarrow>
          if c = 34 then map_option (\<lambda>(str, r). (PStr str, r)) (scanstring [] t)
          else if c = 123 then
            (case skip_ws t of
               [] \<Rightarrow> None
             | d # r \<Rightarrow>
                 if d = 125 then Some (PDict [], r)
                 else if d = 34 then parse_object [] r
                 else None)
          else if c = 91 then
            (case skip_ws t of
               [] \<Rightarrow> None
             | d # r \<Rightarrow> if d = 93 then Some (PList [], r) else parse_array [] (d # r))
          else scan_atom s)"
| "parse_array values s =
     (case parse_value s of
        None \<Rightarrow> None
      | Some (v, r) \<Rightarrow>
          (case skip_ws r of
             [] \<Rightarrow> None
           | d # r' \<Rightarrow>
               if d = 93 then Some (PList (values @ [v]), r')
               else if d = 44 then parse_array (values @ [v]) (skip_ws r')
               else None))"
| "parse_object pairs s =
     (case scanstring [] s of
        None \<Rightarrow> None
      | Some (key, r) \<Rightarrow>
          (case skip_ws r of
             [] \<Rightarrow> None
           | colon # r1 \<Rightarrow>
               if colon \<noteq> 58 then None
               else (case parse_value (skip_ws r1) of
                       None \<Rightarrow> None
                     | Some (v, r2) \<Rightarrow>
                         (case skip_ws r2 of
                            [] \<Rightarrow> None
                          | d # r3 \<Rightarrow>
                              if d = 125 then Some (PDict (dict_set pairs key v), r3)
                              else if d = 44 then
                                (case skip_ws r3 of
                                   [] \<Rightarrow> None
                                 | q # r4 \<Rightarrow>
                                     if q = 34 then parse_object (dict_set pairs key v) r4
                                     else None)
                              else None))))"
  by pat_completeness auto

lemma parse_shorter_partial:
  "parse_value_parse_array_parse_object_dom (Inl s) \<Longrightarrow>
     parse_value s = Some (v, r) \<Longrightarrow> length r < length s"
  "parse_value_parse_array_parse_object_dom (Inr (Inl (vs, s'))) \<Longrightarrow>
     parse_array vs s' = Some (v', r') \<Longrightarrow> length r' < length s'"
  "parse_value_parse_array_parse_object_dom (Inr (Inr (ps, s''))) \<Longrightarrow>
     parse_object ps s'' = Some (v'', r'') \<Longrightarrow> length r'' < length s''"
proof (induct s and vs s' and ps s'' arbitrary: v r and v' r' and v'' r''
    rule: parse_value_parse_array_parse_object.pinduct)
  case (1 s)
  note eq = parse_value.psimps [OF "1.hyps"(1)]
  show ?case
  proof (cases s)
    case Nil
    with eq "1.prems" show ?thesis by simp
  next
    case (Cons c t)
    consider (str) "c = 34" | (obj) "c \<noteq> 34" "c = 123" | (arr) "c \<noteq> 34" "c \<noteq> 123" "c = 91"
      | (atom) "c \<noteq> 34" "c \<noteq> 123" "c \<noteq> 91" by blast
    then show ?thesis
    proof cases
      case str
      with eq Cons "1.prems" obtain x where "scanstring [] t = Some (x, r)" by auto
      then have "length r < length t" by (rule scanstring_shorter)
      with Cons show ?thesis by simp
    next
      case obj
      with eq Cons "1.prems" obtain d r0 where sk: "skip_ws t = d # r0"
        by (auto split: list.splits)
      have lt: "length r0 < length t" using sk by (rule skip_ws_Cons)
      show ?thesis
      proof (cases "d = 125")
        case True
        with eq Cons obj sk "1.prems" have "r = r0" by simp
        with lt Cons show ?thesis by simp
      next
        case False
        with eq Cons obj sk "1.prems" have d34: "d = 34"
          and po: "parse_object [] r0 = Some (v, r)" by (auto split: if_splits)
        from "1.hyps"(2) [OF Cons obj(1) obj(2) sk False d34 po] have "length r < length r0" .
        with lt Cons show ?thesis by simp
      qed
    next
      case arr
      with eq Cons "1.prems" obtain d r0 where sk: "skip_ws t = d # r0"
        by (auto split: list.splits)
      have lt: "length r0 < length t" using sk by (rule skip_ws_Cons)
      show ?thesis
      proof (cases "d = 93")
        case True
        with eq Cons arr sk "1.prems" have "r = r0" by simp
        with lt Cons show ?thesis by simp
      next
        case False
        with eq Cons arr sk "1.prems" have pa: "parse_array [] (d # r0) = Some (v, r)" by simp
        from "1.hyps"(3) [OF Cons arr(1) arr(2) arr(3) sk False pa]
        have "length r < length (d # r0)" .
        with lt Cons show ?thesis by simp
      qed
    next
      case atom
      with eq Cons "1.prems" have "scan_atom s = Some (v, r)" by simp
      then show ?thesis by (rule scan_atom_shorter)
    qed
  qed
next
  case (2 vs s)
  note eq = parse_array.psimps [OF "2.hyps"(1)]
  from eq "2.prems" obtain x r0 where pv: "parse_value s = Some (x, r0)"
    by (auto split: option.splits)
  from "2.hyps"(2) [OF pv] have l0: "length r0 < length s" .
  from eq "2.prems" pv obtain d r1 where sk: "skip_ws r0 = d # r1"
    by (auto split: list.splits)
  have l1: "length r1 < length r0" using sk by (rule skip_ws_Cons)
  show ?case
  proof (cases "d = 93")
    case True
    with eq pv sk "2.prems" have "r' = r1" by simp
    with l0 l1 show ?thesis by simp
  next
    case False
    with eq pv sk "2.prems" have d44: "d = 44"
      and pa: "parse_array (vs @ [x]) (skip_ws r1) = Some (v', r')" by (auto split: if_splits)
    from "2.hyps"(3) [OF pv refl sk False d44 pa] have "length r' < length (skip_ws r1)" .
    with l0 l1 length_skip_ws [of r1] show ?thesis by simp
  qed
next
  case (3 ps s)
  note eq = parse_object.psimps [OF "3.hyps"(1)]
  from eq "3.prems" obtain key r0 where sc: "scanstring [] s = Some (key, r0)"
    by (auto split: option.splits)
  have l0: "length r0 < length s" using sc by (rule scanstring_shorter)
  from eq "3.prems" sc obtain colon r1 where sk: "skip_ws r0 = colon # r1"
    by (auto split: list.splits)
  have l1: "length r1 < length r0" using sk by (rule skip_ws_Cons)
  from eq "3.prems" sc sk have c58: "\<not> colon \<noteq> 58" by (auto split: if_splits)
  from eq "3.prems" sc sk c58 obtain x r2 where pv: "parse_value (skip_ws r1) = Some (x, r2)"
    by (auto split: option.splits)
  from "3.hyps"(2) [OF sc refl sk c58 pv] have l2: "length r2 < length (skip_ws r1)" .
  from eq "3.prems" sc sk c58 pv obtain d r3 where sk2: "skip_ws r2 = d # r3"
    by (auto split: list.splits)
  have l3: "length r3 < length r2" using sk2 by (rule skip_ws_Cons)
  show ?case
  proof (cases "d = 125")
    case True
    with eq sc sk c58 pv sk2 "3.prems" have "r'' = r3" by simp
    with l0 l1 l2 l3 length_skip_ws [of r1] show ?thesis by simp
  next
    case False
    with eq sc sk c58 pv sk2 "3.prems" have d44: "d = 44" by (auto split: if_splits)
    with False eq sc sk c58 pv sk2 "3.prems" obtain q r4 where sk3: "skip_ws r3 = q # r4"
      by (auto split: list.splits)
    have l4: "length r4 < length r3" using sk3 by (rule skip_ws_Cons)
    from False d44 eq sc sk c58 pv sk2 sk3 "3.prems" have q34: "q = 34"
      and po: "parse_object (dict_set ps key x) r4 = Some (v'', r'')" by (auto split: if_splits)
    from "3.hyps"(3) [OF sc refl sk c58 pv refl sk2 False d44 sk3 q34 po]
    have "length r'' < length r4" .
    with l0 l1 l2 l3 l4 length_skip_ws [of r1] show ?thesis by simp
  qed
qed

termination parse_value
proof (relation "measure (\<lambda>x. case x of
          Inl s \<Rightarrow> 2 * length s
        | Inr (Inl (vs, s)) \<Rightarrow> 2 * length s + 1
        | Inr (Inr (ps, s)) \<Rightarrow> 2 * length s + 1)", goal_cases)
  case 1 show ?case by simp
next
  case (2 s c t d r)
  then show ?case using skip_ws_Cons [of t d r] by simp
next
  case (3 s c t d r)
  then show ?case using skip_ws_Cons [of t d r] by simp
next
  case (4 vs s) show ?case by simp
next
  case (5 vs s x v r d r')
  then show ?case
    using skip_ws_Cons [of r d r'] length_skip_ws [of r'] parse_shorter_partial(1) [of s v r]
    by simp
next
  case (6 ps s x key r colon r1)
  then show ?case
    using length_skip_ws [of r1] skip_ws_Cons [of r colon r1] scanstring_shorter [of "[]" s key r]
    by simp
next
  case (7 ps s x key r colon r1 y v r2 d r3 q r4)
  then show ?case
    using skip_ws_Cons [of r2 d r3] skip_ws_Cons [of r3 q r4] length_skip_ws [of r1]
      skip_ws_Cons [of r colon r1] scanstring_shorter [of "[]" s key r]
      parse_shorter_partial(1) [of "skip_ws r1" v r2]
    by simp
qed

text \<open>
  \<^verbatim>\<open>json.loads\<close> of a \<^verbatim>\<open>str\<close>: no byte order mark at the front, one value between
  white space, and nothing after it.
\<close>

definition json_loads :: "pystr \<Rightarrow> py_exn + pyval" where
  "json_loads s =
     (if prefix [65279] s then Inl ValueError
      else (case parse_value (skip_ws s) of
              None \<Rightarrow> Inl ValueError
            | Some (v, r) \<Rightarrow> if skip_ws r = [] then Inr v else Inl ValueError))"

section \<open>The tolerant parser\<close>

text \<open>
  \<^verbatim>\<open>load_robust_json\<close> (lines 58 to 105).
\<close>

text \<open>The lines that are kept: those whose stripped form does not start with \<^verbatim>\<open>//\<close>.\<close>

definition clean_lines :: "pystr \<Rightarrow> pystr list" where
  "clean_lines content =
     filter (\<lambda>line. \<not> prefix (ustr ''//'') (strip line)) (splitlines content)"

text \<open>Strategy 1.\<close>

definition strict_parse :: "pystr \<Rightarrow> py_exn + pyval" where
  "strict_parse content = json_loads (join_lines (clean_lines content))"

text \<open>The matches of the first pattern, then those of the second.\<close>

definition found_items :: "pystr \<Rightarrow> (pystr \<times> pystr) list" where
  "found_items content = findall 34 content @ findall 39 content"

text \<open>\<^verbatim>\<open>value.encode('utf-8').decode('unicode_escape')\<close>\<close>

definition clean_value :: "unicodedata \<Rightarrow> pystr \<Rightarrow> py_exn + pystr" where
  "clean_value ucd v =
     (case utf8_encode v of Inl e \<Rightarrow> Inl e | Inr bytes \<Rightarrow> unicode_escape ucd bytes)"

text \<open>
  The loop over the found items, with the list extracted so far. An exception of the
  decoding ends it.
\<close>

fun extract_items ::
  "unicodedata \<Rightarrow> (pystr \<times> pystr) list \<Rightarrow> pyval list \<Rightarrow> py_exn + pyval list"
where
  "extract_items ucd [] extracted_data = Inr extracted_data"
| "extract_items ucd ((key, v) # items) extracted_data =
     (case clean_value ucd v of
        Inl e \<Rightarrow> Inl e
      | Inr clean_val \<Rightarrow>
          if length clean_val < 2 \<or> py_isdigit ucd clean_val
          then extract_items ucd items extracted_data
          else extract_items ucd items (extracted_data @ [PDict [(key, PStr clean_val)]]))"

text \<open>Strategy 2, with its messages.\<close>

definition regex_scraper :: "console \<Rightarrow> unicodedata \<Rightarrow> pystr \<Rightarrow> pystr \<Rightarrow> py_exn + pyval" where
  "regex_scraper out ucd filename content =
     (case out msg_syntax_error of
        Some e \<Rightarrow> Inl e
      | None \<Rightarrow>
          (case extract_items ucd (found_items content) [] of
             Inl e \<Rightarrow> Inl e
           | Inr extracted_data \<Rightarrow>
               if extracted_data = [] then
                 (case out (msg_regex_failed filename) of
                    Some e \<Rightarrow> Inl e
                  | None \<Rightarrow> Inr (PList []))
               else
                 (case out (msg_found (length extracted_data)) of
                    Some e \<Rightarrow> Inl e
                  | None \<Rightarrow> Inr (PList extracted_data))))"

text \<open>
  The body of the outer \<^verbatim>\<open>try\<close>. Its last argument is what opening and reading the
  file gave: the content, or the exception raised. The inner \<^verbatim>\<open>try\<close> has a bare
  \<^verbatim>\<open>except\<close>, which catches whatever strategy 1 raises.
\<close>

definition load_body :: "console \<Rightarrow> unicodedata \<Rightarrow> pystr \<Rightarrow> py_exn + pystr \<Rightarrow> py_exn + pyval" where
  "load_body out ucd filename file =
     (case file of
        Inl e \<Rightarrow> Inl e
      | Inr content \<Rightarrow>
          (case strict_parse content of
             Inr v \<Rightarrow> Inr v
           | Inl e \<Rightarrow> regex_scraper out ucd filename content))"

text \<open>The exceptions that \<^verbatim>\<open>except Exception\<close> catches: the subclasses of \<^verbatim>\<open>Exception\<close>.\<close>

fun is_Exception :: "py_exn \<Rightarrow> bool" where
  "is_Exception OSError = True"
| "is_Exception UnicodeDecodeError = True"
| "is_Exception UnicodeEncodeError = True"
| "is_Exception ValueError = True"
| "is_Exception AttributeError = True"
| "is_Exception IndexError = True"

text \<open>
  The handler of \<^verbatim>\<open>except Exception as e\<close> (lines 103 to 105). \<open>exn_str\<close> gives the
  message of an exception, the text of \<^verbatim>\<open>{e}\<close>.
\<close>

definition critical_error ::
  "console \<Rightarrow> (py_exn \<Rightarrow> pystr) \<Rightarrow> pystr \<Rightarrow> py_exn \<Rightarrow> py_exn + pyval"
where
  "critical_error out exn_str filename e =
     (case out (msg_critical filename (exn_str e)) of
        Some e' \<Rightarrow> Inl e'
      | None \<Rightarrow> Inr (PList []))"

text \<open>
  \<^verbatim>\<open>load_robust_json\<close>. The first message is printed before the \<^verbatim>\<open>try\<close>, and the last
  one in the handler, so what these two prints raise goes to the caller.
\<close>

definition load_robust_json ::
  "console \<Rightarrow> (py_exn \<Rightarrow> pystr) \<Rightarrow> unicodedata \<Rightarrow> pystr \<Rightarrow> py_exn + pystr \<Rightarrow> py_exn + pyval"
where
  "load_robust_json out exn_str ucd filename file =
     (case out (msg_loading filename) of
        Some e \<Rightarrow> Inl e
      | None \<Rightarrow>
          (case load_body out ucd filename file of
             Inr v \<Rightarrow> Inr v
           | Inl e \<Rightarrow>
               if is_Exception e then critical_error out exn_str filename e else Inl e))"

section \<open>The main program\<close>

definition CHAT_FILE_NAME :: pystr where
  "CHAT_FILE_NAME = ustr ''sample-chat-conversation-01.json''"

definition CONTEXT_FILE_NAME :: pystr where
  "CONTEXT_FILE_NAME = ustr ''sample_context_vectors-01.json''"

text \<open>
  One iteration of the batch loop, for the pair with index \<open>i\<close>: whether the evaluator was
  called, and the exception raised, if one was. \<^verbatim>\<open>chat.items()\<close> is the first use of
  \<open>chat\<close>, and only a dict has that method. Two lines are printed before the call of the
  evaluator and three after it; \<open>report i\<close> is the text \<^verbatim>\<open>json.dumps(result, indent=2)\<close> of
  what the evaluator returned for this pair.
\<close>

definition process_pair ::
  "console \<Rightarrow> (pyval \<Rightarrow> pystr) \<Rightarrow> (nat \<Rightarrow> pystr) \<Rightarrow> nat \<Rightarrow> pyval \<Rightarrow> pyval \<Rightarrow>
     outcome \<times> py_exn option"
where
  "process_pair out repr report i chat ctx =
     (case chat of
        PDict d \<Rightarrow>
          (let query = resolve_query d;
               context_text = resolve_context repr ctx
           in if gate repr query then
                (case print_all out [msg_evaluating i, msg_query repr query] of
                   Some e \<Rightarrow> (Skipped, Some e)
                 | None \<Rightarrow>
                     (Evaluated query context_text (forwarded_response repr d),
                      print_all out [msg_result, report i, msg_rule]))
              else (Skipped, None))
      | _ \<Rightarrow> (Skipped, Some AttributeError))"

definition py_index :: "'a list \<Rightarrow> nat \<Rightarrow> py_exn + 'a" where
  "py_index xs i = (if i < length xs then Inr (xs ! i) else Inl IndexError)"

text \<open>
  The loop \<^verbatim>\<open>for i in range(limit)\<close> over the indices still to visit. It returns what is
  recorded of the pairs it started, in order, and the exception that ended it, if one did.
\<close>

fun pair_loop ::
  "console \<Rightarrow> (pyval \<Rightarrow> pystr) \<Rightarrow> (nat \<Rightarrow> pystr) \<Rightarrow> pyval list \<Rightarrow> pyval list \<Rightarrow> nat list \<Rightarrow>
     outcome list \<times> py_exn option"
where
  "pair_loop out repr report chat_list context_list [] = ([], None)"
| "pair_loop out repr report chat_list context_list (i # rest) =
     (case py_index chat_list i of
        Inl e \<Rightarrow> ([], Some e)
      | Inr chat \<Rightarrow>
          (case py_index context_list i of
             Inl e \<Rightarrow> ([], Some e)
           | Inr ctx \<Rightarrow>
               (case process_pair out repr report i chat ctx of
                  (outcome, Some e) \<Rightarrow> ([outcome], Some e)
                | (outcome, None) \<Rightarrow>
                    (case pair_loop out repr report chat_list context_list rest of
                       (outs, err) \<Rightarrow> (outcome # outs, err)))))"

text \<open>Lines 148 to 193: the limit, its message and the loop.\<close>

definition run_pairs ::
  "console \<Rightarrow> (pyval \<Rightarrow> pystr) \<Rightarrow> (nat \<Rightarrow> pystr) \<Rightarrow> pyval list \<Rightarrow> pyval list \<Rightarrow>
     outcome list \<times> py_exn option"
where
  "run_pairs out repr report chat_list context_list =
     (let limit = min (length chat_list) (length context_list)
      in case out (msg_processing limit) of
           Some e \<Rightarrow> ([], Some e)
         | None \<Rightarrow> pair_loop out repr report chat_list context_list [0..<limit])"

text \<open>\<^verbatim>\<open>if not xs and isinstance(data, list): xs = data\<close>\<close>

definition flat_fallback :: "pyval list \<Rightarrow> pyval \<Rightarrow> pyval list" where
  "flat_fallback xs data = (case data of PList ys \<Rightarrow> if xs = [] then ys else xs | _ \<Rightarrow> xs)"

text \<open>
  What a run of the program comes to: an exception raised before the guard or by the
  message of its else branch, the message "Could not load data" printed, or the batch
  branch with what it recorded and the exception that ended it, if one did.
\<close>

datatype run = Raised py_exn | CouldNotLoad | Ran "outcome list" "py_exn option"

definition main ::
  "console \<Rightarrow> (py_exn \<Rightarrow> pystr) \<Rightarrow> unicodedata \<Rightarrow> (pyval \<Rightarrow> pystr) \<Rightarrow> (nat \<Rightarrow> pystr) \<Rightarrow>
     py_exn + pystr \<Rightarrow> py_exn + pystr \<Rightarrow> run"
where
  "main out exn_str ucd repr report chat_file context_file =
     (case out msg_starting of
        Some e \<Rightarrow> Raised e
      | None \<Rightarrow>
     (case load_robust_json out exn_str ucd CHAT_FILE_NAME chat_file of
        Inl e \<Rightarrow> Raised e
      | Inr chats_data \<Rightarrow>
          (case load_robust_json out exn_str ucd CONTEXT_FILE_NAME context_file of
             Inl e \<Rightarrow> Raised e
           | Inr contexts_data \<Rightarrow>
               if chats_data \<noteq> PNone \<and> contexts_data \<noteq> PNone then
                 (let chat_list = flat_fallback (extract_list_from_data chats_data) chats_data;
                      context_list =
                        flat_fallback (extract_list_from_data contexts_data) contexts_data
                  in case run_pairs out repr report chat_list context_list of
                       (outs, err) \<Rightarrow> Ran outs err)
               else
                 (case out msg_could_not_load of
                    Some e \<Rightarrow> Raised e
                  | None \<Rightarrow> CouldNotLoad))))"

section \<open>Notions used to state the properties\<close>

text \<open>The values of a dict whose key is one of \<open>keys\<close>, in stored order.\<close>

definition keyed_values :: "pystr list \<Rightarrow> pydict \<Rightarrow> pyval list" where
  "keyed_values keys d = map snd (filter (\<lambda>kv. fst kv \<in> set keys) d)"

text \<open>The key is present in the dict and its value is a list.\<close>

definition list_valued :: "pydict \<Rightarrow> pystr \<Rightarrow> bool" where
  "list_valued d k = (case map_of d k of Some (PList xs) \<Rightarrow> True | _ \<Rightarrow> False)"

text \<open>
  What a variable holds after each value of \<open>vs\<close> in turn was assigned to it while it was
  falsy, when it started as the falsy \<open>x\<close>.
\<close>

definition settle :: "pyval \<Rightarrow> pyval list \<Rightarrow> pyval" where
  "settle x vs = (case find truthy vs of Some v \<Rightarrow> v | None \<Rightarrow> if vs = [] then x else last vs)"

text \<open>No code point of the text is a surrogate: the text can be encoded as UTF-8.\<close>

definition no_surrogate :: "pystr \<Rightarrow> bool" where
  "no_surrogate t = list_all (\<lambda>c. c < 55296 \<or> 57343 < c) t"

text \<open>
  The five messages of the tolerant parser for this file name are printed without an
  exception: the one before the \<^verbatim>\<open>try\<close>, the three of strategy 2 and the one of the handler.
\<close>

definition load_prints_ok :: "console \<Rightarrow> (py_exn \<Rightarrow> pystr) \<Rightarrow> pystr \<Rightarrow> bool" where
  "load_prints_ok out exn_str filename =
     (out (msg_loading filename) = None \<and> out msg_syntax_error = None \<and>
      out (msg_regex_failed filename) = None \<and> (\<forall>n. out (msg_found n) = None) \<and>
      (\<forall>e. out (msg_critical filename (exn_str e)) = None))"

section \<open>Shape normalizer: properties\<close>

lemma probe_keys_find:
  "probe_keys d ks =
     (case find (list_valued d) ks of
        None \<Rightarrow> None
      | Some k \<Rightarrow> (case map_of d k of Some (PList xs) \<Rightarrow> Some xs | _ \<Rightarrow> None))"
  by (induction ks) (auto simp: list_valued_def split: option.splits pyval.splits)

text \<open>
  C8. The shape normalizer returns a list as it is. For a mapping it probes the keys
  conversation_turns, vector_data, data, chats, context in this order and returns the
  value of the first that is present and list-valued; when none is and the mapping has a
  "message" or a "text" key, it returns the one-element list of the mapping; in every
  other case it returns the empty list.
\<close>

theorem extract_list_from_data_spec:
  "extract_list_from_data (PList xs) = xs \<and>
   (\<forall>k. find (list_valued d) possible_keys = Some k \<longrightarrow>
        map_of d k = Some (PList (extract_list_from_data (PDict d)))) \<and>
   (find (list_valued d) possible_keys = None \<and>
      (dict_contains (ustr ''message'') d \<or> dict_contains (ustr ''text'') d) \<longrightarrow>
        extract_list_from_data (PDict d) = [PDict d]) \<and>
   (find (list_valued d) possible_keys = None \<and>
      \<not> dict_contains (ustr ''message'') d \<and> \<not> dict_contains (ustr ''text'') d \<longrightarrow>
        extract_list_from_data (PDict d) = []) \<and>
   ((\<forall>ys. v \<noteq> PList ys) \<and> (\<forall>e. v \<noteq> PDict e) \<longrightarrow> extract_list_from_data v = []) \<and>
   possible_keys =
     [ustr ''conversation_turns'', ustr ''vector_data'', ustr ''data'', ustr ''chats'',
      ustr ''context'']"
proof -
  have a: "\<forall>k. find (list_valued d) possible_keys = Some k \<longrightarrow>
        map_of d k = Some (PList (extract_list_from_data (PDict d)))"
  proof (intro allI impI)
    fix k assume f: "find (list_valued d) possible_keys = Some k"
    then have "list_valued d k" by (auto simp: find_Some_iff)
    then obtain ys where ys: "map_of d k = Some (PList ys)"
      by (auto simp: list_valued_def split: option.splits pyval.splits)
    with f have "probe_keys d possible_keys = Some ys"
      by (simp add: probe_keys_find)
    with ys show "map_of d k = Some (PList (extract_list_from_data (PDict d)))" by simp
  qed
  have n: "find (list_valued d) possible_keys = None \<Longrightarrow> probe_keys d possible_keys = None"
    by (simp add: probe_keys_find)
  have v: "(\<forall>ys. v \<noteq> PList ys) \<and> (\<forall>e. v \<noteq> PDict e) \<longrightarrow> extract_list_from_data v = []"
    by (cases v) auto
  show ?thesis using a n v by (auto simp: possible_keys_def)
qed

theorem extract_list_from_data_witness:
  "extract_list_from_data (PList [PInt 1]) = [PInt 1] \<and>
   extract_list_from_data
     (PDict [(ustr ''context'', PList [PInt 2]), (ustr ''data'', PList [PInt 1]),
             (ustr ''chats'', PInt 3)]) = [PInt 1] \<and>
   extract_list_from_data (PDict [(ustr ''data'', PInt 1), (ustr ''text'', PStr (ustr ''hi''))]) =
     [PDict [(ustr ''data'', PInt 1), (ustr ''text'', PStr (ustr ''hi''))]] \<and>
   extract_list_from_data (PDict [(ustr ''data'', PInt 1)]) = [] \<and>
   extract_list_from_data (PInt 5) = []"
  using extract_list_from_data_spec [of "[PInt 1]"
    "[(ustr ''context'', PList [PInt 2]), (ustr ''data'', PList [PInt 1]), (ustr ''chats'', PInt 3)]"
    "PInt 5"]
   extract_list_from_data_spec [of "[]"
    "[(ustr ''data'', PInt 1), (ustr ''text'', PStr (ustr ''hi''))]" "PInt 5"]
   extract_list_from_data_spec [of "[]" "[(ustr ''data'', PInt 1)]" "PInt 5"]
  by (simp add: list_valued_def possible_keys_def dict_contains_def ustr_def)

section \<open>Field resolver: properties\<close>

lemma fold_settle:
  "fold (\<lambda>v x. if truthy x then x else v) vs x = (if truthy x then x else settle x vs)"
  by (induction vs arbitrary: x) (auto simp: settle_def split: option.splits)

lemma key_search_fold:
  "key_search chat items (q, r) =
     (if role_not_ai chat
      then fold (\<lambda>v x. if truthy x then x else v) (keyed_values query_keys items) q
      else q,
      fold (\<lambda>v x. if truthy x then x else v) (keyed_values response_keys items) r)"
  by (induction items arbitrary: q r) (auto simp: keyed_values_def)

lemma keyed_query_eq:
  "keyed_query d = (if role_not_ai d then settle PNone (keyed_values query_keys d) else PNone)"
  by (simp add: keyed_query_def key_search_fold fold_settle)

lemma resolve_response_eq:
  "resolve_response d = settle PNone (keyed_values response_keys d)"
  by (simp add: resolve_response_def key_search_fold fold_settle)

lemma settle_all_truthy: "vs \<noteq> [] \<Longrightarrow> \<forall>v\<in>set vs. truthy v \<Longrightarrow> settle x vs = hd vs"
  by (cases vs) (auto simp: settle_def)

lemma context_scan_last:
  "context_scan repr d c =
     (case keyed_values context_keys d of [] \<Rightarrow> c | v # vs \<Rightarrow> py_str repr (last (v # vs)))"
  by (induction d arbitrary: c) (auto simp: keyed_values_def split: list.splits)

text \<open>
  C6. Context resolution. For a mapping, the resolved context is the string of the last
  value, in stored order, whose key is text, context or chunks (a later match overwrites
  an earlier one), and the sentinel "Context Not Found" when no such key is present; for
  a context item that is not a mapping it is the string of the item.
\<close>

theorem resolve_context_spec:
  "(keyed_values context_keys d \<noteq> [] \<longrightarrow>
      resolve_context repr (PDict d) = py_str repr (last (keyed_values context_keys d))) \<and>
   (keyed_values context_keys d = [] \<longrightarrow>
      resolve_context repr (PDict d) = ustr ''Context Not Found'') \<and>
   ((\<forall>e. ctx \<noteq> PDict e) \<longrightarrow> resolve_context repr ctx = py_str repr ctx) \<and>
   context_keys = [ustr ''text'', ustr ''context'', ustr ''chunks'']"
  by (cases ctx) (auto simp: resolve_context_def context_scan_last context_keys_def split: list.splits)

theorem resolve_context_witness:
  "resolve_context (\<lambda>v. []) (PDict [(ustr ''text'', PStr (ustr ''weather context''))]) =
     ustr ''weather context'' \<and>
   resolve_context (\<lambda>v. [])
     (PDict [(ustr ''chunks'', PStr (ustr ''one'')), (ustr ''id'', PInt 7),
             (ustr ''text'', PInt 12)]) = ustr ''12'' \<and>
   resolve_context (\<lambda>v. []) (PDict [(ustr ''id'', PInt 7)]) = ustr ''Context Not Found'' \<and>
   resolve_context (\<lambda>v. []) (PStr (ustr ''raw text'')) = ustr ''raw text''"
  using
    resolve_context_spec [of "[(ustr ''text'', PStr (ustr ''weather context''))]" "\<lambda>v. []"
      "PStr (ustr ''raw text'')"]
    resolve_context_spec [of "[(ustr ''chunks'', PStr (ustr ''one'')), (ustr ''id'', PInt 7),
      (ustr ''text'', PInt 12)]" "\<lambda>v. []" "PStr (ustr ''raw text'')"]
    resolve_context_spec [of "[(ustr ''id'', PInt 7)]" "\<lambda>v. []" "PStr (ustr ''raw text'')"]
  by (simp add: keyed_values_def context_keys_def ustr_def int_str_def nat_str.simps)

text \<open>
  C2, as amended. Query resolution visits the pairs of the chat item in stored order. A
  value whose key is user_query, message, query or text is taken as the query whenever
  the query held so far is falsy (None at the start, but also an empty string, a zero, an
  empty list) and the role of the item is not "AI/Chatbot"; so the keyed search ends with
  the first truthy such value, with the last such value when none is truthy, and with
  None when there is none or the role is "AI/Chatbot". The fallback takes the "message"
  value of the item, whatever its role, exactly when the keyed search ended with a falsy
  query and the item has a "message" key. When every such value is truthy and the role is
  not "AI/Chatbot", the query is the first such value, as the claim says. An item with role
  "AI/Chatbot" and a "message" key gets nothing from the keyed search and its "message"
  value from the fallback.
\<close>

theorem resolve_query_spec:
  "keyed_query d =
     (if role_not_ai d
      then (case find truthy (keyed_values query_keys d) of
              Some v \<Rightarrow> v
            | None \<Rightarrow> if keyed_values query_keys d = [] then PNone
                       else last (keyed_values query_keys d))
      else PNone) \<and>
   resolve_query d =
     (if \<not> truthy (keyed_query d) \<and> dict_contains (ustr ''message'') d
      then dict_get d (ustr ''message'') else keyed_query d) \<and>
   (role_not_ai d \<and> keyed_values query_keys d \<noteq> [] \<and>
      (\<forall>v\<in>set (keyed_values query_keys d). truthy v) \<longrightarrow>
        keyed_query d = hd (keyed_values query_keys d) \<and>
        resolve_query d = hd (keyed_values query_keys d)) \<and>
   (\<not> role_not_ai d \<and> map_of d (ustr ''message'') = Some m \<longrightarrow>
        keyed_query d = PNone \<and> resolve_query d = m) \<and>
   query_keys = [ustr ''user_query'', ustr ''message'', ustr ''query'', ustr ''text'']"
proof -
  have k: "keyed_query d =
     (if role_not_ai d then settle PNone (keyed_values query_keys d) else PNone)"
    by (rule keyed_query_eq)
  have k': "keyed_query d =
     (if role_not_ai d
      then (case find truthy (keyed_values query_keys d) of
              Some v \<Rightarrow> v
            | None \<Rightarrow> if keyed_values query_keys d = [] then PNone
                       else last (keyed_values query_keys d))
      else PNone)"
    by (simp add: k settle_def)
  have r: "resolve_query d =
     (if \<not> truthy (keyed_query d) \<and> dict_contains (ustr ''message'') d
      then dict_get d (ustr ''message'') else keyed_query d)"
    by (simp add: resolve_query_def Let_def)
  have t: "role_not_ai d \<and> keyed_values query_keys d \<noteq> [] \<and>
      (\<forall>v\<in>set (keyed_values query_keys d). truthy v) \<longrightarrow>
        keyed_query d = hd (keyed_values query_keys d) \<and>
        resolve_query d = hd (keyed_values query_keys d)"
  proof (intro impI)
    assume a: "role_not_ai d \<and> keyed_values query_keys d \<noteq> [] \<and>
      (\<forall>v\<in>set (keyed_values query_keys d). truthy v)"
    then have kq: "keyed_query d = hd (keyed_values query_keys d)"
      by (simp add: k settle_all_truthy)
    moreover from a have "truthy (hd (keyed_values query_keys d))" by simp
    ultimately show "keyed_query d = hd (keyed_values query_keys d) \<and>
        resolve_query d = hd (keyed_values query_keys d)"
      by (simp add: r)
  qed
  have ai: "\<not> role_not_ai d \<and> map_of d (ustr ''message'') = Some m \<longrightarrow>
        keyed_query d = PNone \<and> resolve_query d = m"
    by (simp add: k r dict_contains_def dict_get_def)
  show ?thesis by (intro conjI k' r t ai query_keys_def)
qed

theorem resolve_query_witness:
  "resolve_query
     [(ustr ''message'', PStr (ustr ''Hello there, how are you?'')),
      (ustr ''role'', PStr (ustr ''user''))] = PStr (ustr ''Hello there, how are you?'') \<and>
   keyed_query
     [(ustr ''role'', PStr (ustr ''AI/Chatbot'')),
      (ustr ''message'', PStr (ustr ''I am the assistant''))] = PNone \<and>
   resolve_query
     [(ustr ''role'', PStr (ustr ''AI/Chatbot'')),
      (ustr ''message'', PStr (ustr ''I am the assistant''))] =
     PStr (ustr ''I am the assistant'')"
  using
    resolve_query_spec [of "[(ustr ''message'', PStr (ustr ''Hello there, how are you?'')),
      (ustr ''role'', PStr (ustr ''user''))]" PNone]
    resolve_query_spec [of "[(ustr ''role'', PStr (ustr ''AI/Chatbot'')),
      (ustr ''message'', PStr (ustr ''I am the assistant''))]" "PStr (ustr ''I am the assistant'')"]
  by (simp add: keyed_values_def query_keys_def role_not_ai_def dict_get_def dict_contains_def
      ustr_def)

text \<open>
  The claim as it stands fails where the first such value is falsy: the keyed values of
  the item below are the empty string and a question, in this order, and the query is
  the question, not the first value.
\<close>

theorem resolve_query_counterexample:
  "keyed_values query_keys
     [(ustr ''text'', PStr []), (ustr ''query'', PStr (ustr ''What is this?''))] =
     [PStr [], PStr (ustr ''What is this?'')] \<and>
   resolve_query
     [(ustr ''text'', PStr []), (ustr ''query'', PStr (ustr ''What is this?''))] =
     PStr (ustr ''What is this?'') \<and>
   resolve_query
     [(ustr ''text'', PStr []), (ustr ''query'', PStr (ustr ''What is this?''))] \<noteq>
   hd (keyed_values query_keys
     [(ustr ''text'', PStr []), (ustr ''query'', PStr (ustr ''What is this?''))])"
  by (simp add: keyed_values_def query_keys_def resolve_query_def keyed_query_def
      role_not_ai_def dict_get_def dict_contains_def ustr_def)

text \<open>
  C7, as amended. Response resolution ends with the first truthy value, in stored order,
  whose key is bot_response, response or answer (with the last such value when none is
  truthy, and with None when there is none); it depends on these values only, not on the
  query search or the role. The response handed to the evaluator is the string of that
  first truthy value, and the placeholder "Generated Response" when no such value is
  truthy, in particular when no such key is found. When every such value is truthy, the
  response is the first such value, as the claim says.
\<close>

theorem resolve_response_spec:
  "resolve_response d =
     (case find truthy (keyed_values response_keys d) of
        Some v \<Rightarrow> v
      | None \<Rightarrow> if keyed_values response_keys d = [] then PNone
                 else last (keyed_values response_keys d)) \<and>
   forwarded_response repr d =
     (case find truthy (keyed_values response_keys d) of
        Some v \<Rightarrow> py_str repr v
      | None \<Rightarrow> ustr ''Generated Response'') \<and>
   (keyed_values response_keys d \<noteq> [] \<and>
      (\<forall>v\<in>set (keyed_values response_keys d). truthy v) \<longrightarrow>
        resolve_response d = hd (keyed_values response_keys d)) \<and>
   (keyed_values response_keys d = [] \<longrightarrow>
        forwarded_response repr d = ustr ''Generated Response'') \<and>
   response_keys = [ustr ''bot_response'', ustr ''response'', ustr ''answer'']"
proof -
  let ?vs = "keyed_values response_keys d"
  have r: "resolve_response d = settle PNone ?vs" by (rule resolve_response_eq)
  have r': "resolve_response d =
     (case find truthy ?vs of
        Some v \<Rightarrow> v
      | None \<Rightarrow> if ?vs = [] then PNone else last ?vs)"
    by (simp add: r settle_def)
  have f: "forwarded_response repr d =
     (case find truthy ?vs of Some v \<Rightarrow> py_str repr v | None \<Rightarrow> ustr ''Generated Response'')"
  proof (cases "find truthy ?vs")
    case None
    then have "\<forall>v\<in>set ?vs. \<not> truthy v" by (simp add: find_None_iff)
    then have "?vs \<noteq> [] \<Longrightarrow> \<not> truthy (last ?vs)" using last_in_set by blast
    with None have "\<not> truthy (settle PNone ?vs)"
      by (cases "?vs = []") (simp_all add: settle_def)
    with None show ?thesis by (simp add: forwarded_response_def r)
  next
    case (Some v)
    then have "truthy v" by (auto simp: find_Some_iff)
    with Some show ?thesis by (simp add: forwarded_response_def r settle_def)
  qed
  have t: "?vs \<noteq> [] \<and> (\<forall>v\<in>set ?vs. truthy v) \<longrightarrow> resolve_response d = hd ?vs"
    by (simp add: r settle_all_truthy)
  have e: "?vs = [] \<longrightarrow> forwarded_response repr d = ustr ''Generated Response''"
    by (simp add: f)
  show ?thesis by (intro conjI r' f t e response_keys_def)
qed

theorem resolve_response_witness:
  "resolve_response
     [(ustr ''message'', PStr (ustr ''Hello there'')),
      (ustr ''response'', PStr (ustr ''Sure, here it is'')),
      (ustr ''answer'', PStr (ustr ''second''))] = PStr (ustr ''Sure, here it is'') \<and>
   forwarded_response (\<lambda>v. [])
     [(ustr ''message'', PStr (ustr ''Hello there'')),
      (ustr ''response'', PStr (ustr ''Sure, here it is'')),
      (ustr ''answer'', PStr (ustr ''second''))] = ustr ''Sure, here it is'' \<and>
   forwarded_response (\<lambda>v. []) [(ustr ''message'', PStr (ustr ''Hello there''))] =
     ustr ''Generated Response''"
  using
    resolve_response_spec [of "[(ustr ''message'', PStr (ustr ''Hello there'')),
      (ustr ''response'', PStr (ustr ''Sure, here it is'')),
      (ustr ''answer'', PStr (ustr ''second''))]" "\<lambda>v. []"]
    resolve_response_spec [of "[(ustr ''message'', PStr (ustr ''Hello there''))]" "\<lambda>v. []"]
  by (simp add: keyed_values_def response_keys_def ustr_def)

text \<open>
  The claim as it stands fails where the first such value is falsy: the item below has an
  empty "response" before its "answer", and the response is the answer.
\<close>

theorem resolve_response_counterexample:
  "keyed_values response_keys
     [(ustr ''response'', PStr []), (ustr ''answer'', PStr (ustr ''Forty-two''))] =
     [PStr [], PStr (ustr ''Forty-two'')] \<and>
   resolve_response
     [(ustr ''response'', PStr []), (ustr ''answer'', PStr (ustr ''Forty-two''))] =
     PStr (ustr ''Forty-two'') \<and>
   resolve_response
     [(ustr ''response'', PStr []), (ustr ''answer'', PStr (ustr ''Forty-two''))] \<noteq>
   hd (keyed_values response_keys
     [(ustr ''response'', PStr []), (ustr ''answer'', PStr (ustr ''Forty-two''))])"
  by (simp add: keyed_values_def response_keys_def resolve_response_def ustr_def)
section \<open>The console: properties\<close>

lemma utf8_char_None: "utf8_char c = None \<longleftrightarrow> 55296 \<le> c \<and> c \<le> 57343"
  by (simp add: utf8_char_def)

lemma no_surrogate_append [simp]: "no_surrogate (s @ t) \<longleftrightarrow> no_surrogate s \<and> no_surrogate t"
  by (simp add: no_surrogate_def)

lemma no_surrogate_Cons [simp]: "no_surrogate (c # t) \<longleftrightarrow> (c < 55296 \<or> 57343 < c) \<and> no_surrogate t"
  by (simp add: no_surrogate_def)

lemma no_surrogate_Nil [simp]: "no_surrogate []"
  by (simp add: no_surrogate_def)

lemma utf8_encode_Inr: "(\<exists>bs. utf8_encode t = Inr bs) \<longleftrightarrow> no_surrogate t"
proof (induction t)
  case Nil
  show ?case by simp
next
  case (Cons c t)
  show ?case
  proof (cases "utf8_char c")
    case None
    then have "55296 \<le> c \<and> c \<le> 57343" using utf8_char_None [of c] by simp
    with None show ?thesis by simp
  next
    case (Some bs)
    then have "\<not> (55296 \<le> c \<and> c \<le> 57343)" using utf8_char_None [of c] by simp
    then have c: "c < 55296 \<or> 57343 < c" by linarith
    show ?thesis
    proof (cases "utf8_encode t")
      case (Inl e)
      with Some Cons c show ?thesis by simp
    next
      case (Inr rest)
      with Some Cons c show ?thesis by simp
    qed
  qed
qed

lemma utf8_console_None: "utf8_console t = None \<longleftrightarrow> no_surrogate t"
proof (cases "utf8_encode t")
  case (Inl e)
  with utf8_encode_Inr [of t] show ?thesis by (simp add: utf8_console_def)
next
  case (Inr bs)
  with utf8_encode_Inr [of t] show ?thesis by (simp add: utf8_console_def)
qed

lemma no_surrogate_ustr [simp]: "no_surrogate (ustr s)"
proof -
  have "\<And>c. c \<in> set (ustr s) \<Longrightarrow> c < 55296"
  proof -
    fix c assume "c \<in> set (ustr s)"
    then obtain x where "c = of_char x" by (auto simp: ustr_def)
    moreover have "(of_char x :: nat) < 256" by (rule nat_of_char_less_256)
    ultimately show "c < 55296" by linarith
  qed
  then show ?thesis by (simp add: no_surrogate_def list_all_iff)
qed

lemma no_surrogate_nat_str [simp]: "no_surrogate (nat_str n)"
proof (induction n rule: nat_str.induct)
  case (1 n)
  show ?case
  proof (cases "n < 10")
    case True
    then show ?thesis by (subst nat_str.simps) simp
  next
    case False
    have "n mod 10 < 10" by simp
    then have "48 + n mod 10 < 55296" by linarith
    with False "1.IH" show ?thesis by (subst nat_str.simps) simp
  qed
qed

lemma utf8_load_prints_ok:
  "no_surrogate filename \<Longrightarrow> (\<forall>e. no_surrogate (exn_str e)) \<Longrightarrow>
   load_prints_ok utf8_console exn_str filename"
  by (simp add: load_prints_ok_def utf8_console_None msg_loading_def msg_syntax_error_def
      msg_regex_failed_def msg_found_def msg_critical_def)

lemma utf8_encode_Inl: "utf8_encode t = Inl e \<Longrightarrow> e = UnicodeEncodeError"
  by (induction t arbitrary: e) (auto split: option.splits sum.splits)

lemma utf8_console_eq:
  "utf8_console t = (if no_surrogate t then None else Some UnicodeEncodeError)"
proof (cases "utf8_encode t")
  case (Inl e)
  with utf8_encode_Inr [of t] utf8_encode_Inl [OF Inl] show ?thesis
    by (simp add: utf8_console_def)
next
  case (Inr bs)
  with utf8_encode_Inr [of t] show ?thesis by (simp add: utf8_console_def)
qed

lemma no_surrogate_replicate:
  "no_surrogate (replicate n c) = (n = 0 \<or> c < 55296 \<or> 57343 < c)"
  by (induction n) (auto simp: no_surrogate_def)

section \<open>Evaluation on concrete inputs\<close>

lemmas text_eval = splitlines_def strip_def clean_lines_def line_boundary_def py_isspace_def
  ustr_def

lemmas json_eval = strict_parse_def json_loads_def skip_ws_def json_space_def scan_atom_def
  match_number_def int_digits_def frac_digits_def exponent_def json_backslash_def
  unicode_char_def hex_escape_def hex_digit_def is_ascii_digit_def Let_def

lemmas salvage_eval = found_items_def match_here_def match_key_def open_quote_def
  close_quote_def space_star_def value_atom_def salvage_keys_def clean_value_def utf8_char_def
  py_isdigit_def decode_escape_def simple_escape_def is_octal_def

lemma utf8_console_ok: "no_surrogate t \<Longrightarrow> utf8_console t = None"
  by (simp add: utf8_console_None)

lemmas console_eval = utf8_console_ok msg_loading_def msg_syntax_error_def msg_regex_failed_def
  msg_found_def msg_critical_def msg_starting_def msg_processing_def msg_could_not_load_def
  CHAT_FILE_NAME_def CONTEXT_FILE_NAME_def

lemmas pair_eval = no_surrogate_replicate run_pairs_def py_index_def process_pair_def gate_def resolve_query_def
  keyed_query_def role_not_ai_def dict_get_def dict_contains_def query_keys_def
  response_keys_def context_keys_def resolve_context_def forwarded_response_def
  resolve_response_def utf8_console_eq msg_processing_def msg_evaluating_def msg_query_def
  msg_result_def msg_rule_def nat_str.simps ustr_def Let_def

section \<open>Tolerant parser: properties\<close>

lemma is_Exception_all: "is_Exception e"
  by (cases e) simp_all

lemma load_robust_json_cases:
  "load_robust_json out exn_str ucd filename file =
     (case out (msg_loading filename) of
        Some e \<Rightarrow> Inl e
      | None \<Rightarrow>
          (case file of
             Inl e \<Rightarrow> critical_error out exn_str filename e
           | Inr content \<Rightarrow>
               (case strict_parse content of
                  Inr v \<Rightarrow> Inr v
                | Inl e \<Rightarrow>
                    (case regex_scraper out ucd filename content of
                       Inr v \<Rightarrow> Inr v
                     | Inl e' \<Rightarrow> critical_error out exn_str filename e'))))"
  by (simp add: load_robust_json_def load_body_def is_Exception_all
      split: option.splits sum.splits)

lemma critical_error_Inl: "critical_error out exn_str filename e = Inl e' \<Longrightarrow> \<exists>t. out t = Some e'"
  by (auto simp: critical_error_def split: option.splits)

lemma critical_error_ok:
  "load_prints_ok out exn_str filename \<Longrightarrow> critical_error out exn_str filename e = Inr (PList [])"
  by (simp add: critical_error_def load_prints_ok_def)

lemma regex_scraper_ok:
  "load_prints_ok out exn_str filename \<Longrightarrow>
   regex_scraper out ucd filename content =
     (case extract_items ucd (found_items content) [] of
        Inl e \<Rightarrow> Inl e
      | Inr extracted_data \<Rightarrow> Inr (PList extracted_data))"
  by (simp add: regex_scraper_def load_prints_ok_def split: sum.splits)

lemma load_robust_json_ok:
  "load_prints_ok out exn_str filename \<Longrightarrow>
   load_robust_json out exn_str ucd filename file =
     (case file of
        Inl e \<Rightarrow> Inr (PList [])
      | Inr content \<Rightarrow>
          (case strict_parse content of
             Inr v \<Rightarrow> Inr v
           | Inl e \<Rightarrow>
               (case extract_items ucd (found_items content) [] of
                  Inl e' \<Rightarrow> Inr (PList [])
                | Inr extracted_data \<Rightarrow> Inr (PList extracted_data))))"
proof -
  assume ok: "load_prints_ok out exn_str filename"
  then have l: "out (msg_loading filename) = None" by (simp add: load_prints_ok_def)
  show ?thesis
    by (simp add: load_robust_json_cases l critical_error_ok [OF ok] regex_scraper_ok [OF ok]
        split: sum.splits)
qed

lemma load_robust_json_Inl:
  "load_robust_json out exn_str ucd filename file = Inl e \<Longrightarrow> \<exists>t. out t = Some e"
proof -
  assume a: "load_robust_json out exn_str ucd filename file = Inl e"
  show ?thesis
  proof (cases "out (msg_loading filename)")
    case (Some e')
    with a have "e' = e" by (simp add: load_robust_json_cases)
    with Some show ?thesis by blast
  next
    case None
    with a obtain e0 where "critical_error out exn_str filename e0 = Inl e"
      by (auto simp: load_robust_json_cases split: sum.splits)
    then show ?thesis by (rule critical_error_Inl)
  qed
qed

text \<open>
  C1, as amended. The tolerant parser prints one line before its \<^verbatim>\<open>try\<close> and one in its
  handler, so an exception can leave it, but only one that a \<^verbatim>\<open>print\<close> raised. When its
  five messages are printed without an exception it returns a value, whatever reading the
  file gave, the content or an exception: the empty list when the file cannot be read, and
  also when strategy 1 fails and the salvage extracts nothing, or the decoding of a
  salvaged value raises. The messages are printed without an exception on a UTF-8 console
  when neither the file name nor the text of an exception holds a surrogate.
\<close>

theorem load_robust_json_never_raises:
  "(\<forall>e. load_robust_json out exn_str ucd filename file = Inl e \<longrightarrow> (\<exists>t. out t = Some e)) \<and>
   (load_prints_ok out exn_str filename \<longrightarrow>
      (\<exists>v. load_robust_json out exn_str ucd filename file = Inr v) \<and>
      (\<forall>e. file = Inl e \<longrightarrow> load_robust_json out exn_str ucd filename file = Inr (PList [])) \<and>
      (\<forall>content e. file = Inr content \<and> strict_parse content = Inl e \<and>
           extract_items ucd (found_items content) [] = Inr [] \<longrightarrow>
           load_robust_json out exn_str ucd filename file = Inr (PList [])) \<and>
      (\<forall>content e e'. file = Inr content \<and> strict_parse content = Inl e \<and>
           extract_items ucd (found_items content) [] = Inl e' \<longrightarrow>
           load_robust_json out exn_str ucd filename file = Inr (PList []))) \<and>
   (no_surrogate filename \<and> (\<forall>e. no_surrogate (exn_str e)) \<longrightarrow>
      load_prints_ok utf8_console exn_str filename)"
proof (intro conjI)
  show "\<forall>e. load_robust_json out exn_str ucd filename file = Inl e \<longrightarrow> (\<exists>t. out t = Some e)"
    using load_robust_json_Inl by blast
  show "load_prints_ok out exn_str filename \<longrightarrow>
      (\<exists>v. load_robust_json out exn_str ucd filename file = Inr v) \<and>
      (\<forall>e. file = Inl e \<longrightarrow> load_robust_json out exn_str ucd filename file = Inr (PList [])) \<and>
      (\<forall>content e. file = Inr content \<and> strict_parse content = Inl e \<and>
           extract_items ucd (found_items content) [] = Inr [] \<longrightarrow>
           load_robust_json out exn_str ucd filename file = Inr (PList [])) \<and>
      (\<forall>content e e'. file = Inr content \<and> strict_parse content = Inl e \<and>
           extract_items ucd (found_items content) [] = Inl e' \<longrightarrow>
           load_robust_json out exn_str ucd filename file = Inr (PList []))"
    by (auto simp: load_robust_json_ok split: sum.splits)
  show "no_surrogate filename \<and> (\<forall>e. no_surrogate (exn_str e)) \<longrightarrow>
      load_prints_ok utf8_console exn_str filename"
    using utf8_load_prints_ok by blast
qed

theorem load_robust_json_never_raises_witness:
  "load_robust_json utf8_console (\<lambda>e. [])
     \<lparr>digit_char = (\<lambda>c. False), lookup_name = (\<lambda>n. None)\<rparr> CHAT_FILE_NAME (Inl OSError) =
     Inr (PList []) \<and>
   load_robust_json utf8_console (\<lambda>e. [])
     \<lparr>digit_char = (\<lambda>c. False), lookup_name = (\<lambda>n. None)\<rparr> CHAT_FILE_NAME
     (Inr (ustr ''{\"id\": 42'')) = Inr (PList []) \<and>
   load_robust_json utf8_console (\<lambda>e. [])
     \<lparr>digit_char = (\<lambda>c. False), lookup_name = (\<lambda>n. None)\<rparr> CHAT_FILE_NAME
     (Inr (ustr ''\"text\": \"ab'' @ [92] @ ustr ''x\"'')) = Inr (PList [])"
proof -
  let ?ucd = "\<lparr>digit_char = (\<lambda>c. False), lookup_name = (\<lambda>n. None)\<rparr>"
  have n: "no_surrogate CHAT_FILE_NAME \<and> (\<forall>e::py_exn. no_surrogate [])"
    by (simp add: CHAT_FILE_NAME_def)
  have a: "strict_parse (ustr ''{\"id\": 42'') = Inl ValueError"
    by (simp add: text_eval json_eval)
  have b: "extract_items ?ucd (found_items (ustr ''{\"id\": 42'')) [] = Inr []"
    by (simp add: text_eval salvage_eval)
  have c: "strict_parse (ustr ''\"text\": \"ab'' @ [92] @ ustr ''x\"'') = Inl ValueError"
    by (simp add: text_eval json_eval)
  have d: "extract_items ?ucd (found_items (ustr ''\"text\": \"ab'' @ [92] @ ustr ''x\"'')) [] =
      Inl UnicodeDecodeError"
    by (simp add: text_eval salvage_eval hex_escape_def hex_digit_def)
  show ?thesis
    using load_robust_json_never_raises [of utf8_console "\<lambda>e. []" ?ucd CHAT_FILE_NAME "Inl OSError"]
      load_robust_json_never_raises [of utf8_console "\<lambda>e. []" ?ucd CHAT_FILE_NAME
        "Inr (ustr ''{\"id\": 42'')"]
      load_robust_json_never_raises [of utf8_console "\<lambda>e. []" ?ucd CHAT_FILE_NAME
        "Inr (ustr ''\"text\": \"ab'' @ [92] @ ustr ''x\"'')"]
      n a b c d
    by simp
qed

text \<open>
  The claim as it stands fails on a console that encodes ASCII only: the first message
  starts with U+1F4C2 and is printed before the \<^verbatim>\<open>try\<close>, so the call raises
  UnicodeEncodeError, here for a file that holds the empty list.
\<close>

theorem load_robust_json_never_raises_counterexample:
  "load_robust_json ascii_console (\<lambda>e. [])
     \<lparr>digit_char = (\<lambda>c. False), lookup_name = (\<lambda>n. None)\<rparr> CHAT_FILE_NAME
     (Inr (ustr ''[]'')) = Inl UnicodeEncodeError"
  by (simp add: load_robust_json_def ascii_console_def msg_loading_def)

lemma findall_keys: "kv \<in> set (findall q s) \<Longrightarrow> fst kv \<in> set salvage_keys"
proof (induction q s rule: findall.induct)
  case (1 q)
  then show ?case by simp
next
  case (2 q c s)
  show ?case
  proof (cases "match_here q (c # s)")
    case None
    with 2 show ?thesis by simp
  next
    case (Some m)
    obtain kv' rest where m: "m = (kv', rest)" by (cases m)
    from "2.prems" Some m have "kv = kv' \<or> kv \<in> set (findall q rest)" by simp
    then show ?thesis
    proof
      assume "kv = kv'"
      with match_here_Some [of q "c # s" kv' rest] Some m show ?thesis by simp
    next
      assume "kv \<in> set (findall q rest)"
      from "2.IH"(2) [OF Some m [symmetric] this] show ?thesis .
    qed
  qed
qed

lemma extract_items_sound:
  "extract_items ucd items acc = Inr out \<Longrightarrow> x \<in> set out \<Longrightarrow>
   x \<in> set acc \<or>
   (\<exists>key raw v. (key, raw) \<in> set items \<and> clean_value ucd raw = Inr v \<and>
      x = PDict [(key, PStr v)] \<and> 2 \<le> length v \<and> \<not> py_isdigit ucd v)"
proof (induction ucd items acc rule: extract_items.induct)
  case (1 ucd extracted_data)
  then show ?case by simp
next
  case (2 ucd key v items extracted_data)
  from "2.prems"(1) obtain clean_val where cv: "clean_value ucd v = Inr clean_val"
    by (auto split: sum.splits)
  show ?case
  proof (cases "length clean_val < 2 \<or> py_isdigit ucd clean_val")
    case True
    with "2.prems" cv have "extract_items ucd items extracted_data = Inr out" by simp
    from "2.IH"(1) [OF cv True this "2.prems"(2)] show ?thesis by auto
  next
    case False
    with "2.prems" cv have
      "extract_items ucd items (extracted_data @ [PDict [(key, PStr clean_val)]]) = Inr out"
      by simp
    from "2.IH"(2) [OF cv False this "2.prems"(2)] cv False show ?thesis by auto
  qed
qed

lemma extract_items_complete:
  "extract_items ucd items acc = Inr out \<Longrightarrow>
   set acc \<subseteq> set out \<and>
   (\<forall>key raw v. (key, raw) \<in> set items \<and> clean_value ucd raw = Inr v \<and> 2 \<le> length v \<and>
      \<not> py_isdigit ucd v \<longrightarrow> PDict [(key, PStr v)] \<in> set out)"
proof (induction ucd items acc rule: extract_items.induct)
  case (1 ucd extracted_data)
  then show ?case by simp
next
  case (2 ucd key v items extracted_data)
  from "2.prems"(1) obtain clean_val where cv: "clean_value ucd v = Inr clean_val"
    by (auto split: sum.splits)
  show ?case
  proof (cases "length clean_val < 2 \<or> py_isdigit ucd clean_val")
    case True
    with "2.prems" cv have "extract_items ucd items extracted_data = Inr out" by simp
    from "2.IH"(1) [OF cv True this] cv True show ?thesis by auto
  next
    case False
    with "2.prems" cv have
      "extract_items ucd items (extracted_data @ [PDict [(key, PStr clean_val)]]) = Inr out"
      by simp
    from "2.IH"(2) [OF cv False this] cv False show ?thesis by auto
  qed
qed

lemma regex_scraper_Inr:
  "regex_scraper out ucd filename content = Inr (PList items) \<Longrightarrow>
   extract_items ucd (found_items content) [] = Inr items"
  by (auto simp: regex_scraper_def split: option.splits sum.splits if_splits)

lemma isdigit_ascii: "v \<noteq> [] \<Longrightarrow> list_all is_ascii_digit v \<Longrightarrow> py_isdigit ucd v"
  by (auto simp: py_isdigit_def is_ascii_digit_def list_all_iff)

text \<open>
  C4. Every item the salvage mode emits is a mapping with a single key and comes from a
  match of one of the two patterns: its key is the key of the match, one of user_query,
  message, query, text, response, bot_response, and its value is the matched text with
  the escapes decoded, which has at least 2 characters and is not made of digits only.
  Every match whose decoded value passes this filter is emitted. For the malformed input
  \<^verbatim>\<open>"query": "What is 2+2?", "id": "42"\<close> the salvage gives exactly the one item
  \<^verbatim>\<open>{"query": "What is 2+2?"}\<close>, and so does the tolerant parser. The filter reads the
  decoded value: of a "text" value that spells 42 with two hexadecimal escapes and a
  "message" value Hi followed by the escape of an exclamation mark, only the message is
  emitted, as \<^verbatim>\<open>Hi!\<close>.
\<close>

theorem salvage_items:
  "(\<forall>items item. regex_scraper out ucd filename content = Inr (PList items) \<and> item \<in> set items \<longrightarrow>
      (\<exists>key raw v. (key, raw) \<in> set (found_items content) \<and> clean_value ucd raw = Inr v \<and>
         item = PDict [(key, PStr v)] \<and> key \<in> set salvage_keys \<and>
         2 \<le> length v \<and> \<not> py_isdigit ucd v \<and> \<not> list_all is_ascii_digit v)) \<and>
   (\<forall>items key raw v. regex_scraper out ucd filename content = Inr (PList items) \<and>
      (key, raw) \<in> set (found_items content) \<and> clean_value ucd raw = Inr v \<and>
      2 \<le> length v \<and> \<not> py_isdigit ucd v \<longrightarrow> PDict [(key, PStr v)] \<in> set items) \<and>
   salvage_keys =
     [ustr ''user_query'', ustr ''message'', ustr ''query'', ustr ''text'', ustr ''response'',
      ustr ''bot_response''] \<and>
   regex_scraper utf8_console ucd CHAT_FILE_NAME
     (ustr ''\"query\": \"What is 2+2?\", \"id\": \"42\"'') =
     Inr (PList [PDict [(ustr ''query'', PStr (ustr ''What is 2+2?''))]]) \<and>
   load_robust_json utf8_console exn_str ucd CHAT_FILE_NAME
     (Inr (ustr ''\"query\": \"What is 2+2?\", \"id\": \"42\"'')) =
     Inr (PList [PDict [(ustr ''query'', PStr (ustr ''What is 2+2?''))]]) \<and>
   regex_scraper utf8_console ucd CHAT_FILE_NAME
     (ustr ''\"text\": \"'' @ [92] @ ustr ''x34'' @ [92] @ ustr ''x32\", \"message\": \"Hi'' @
      [92] @ ustr ''u0021\"'') =
     Inr (PList [PDict [(ustr ''message'', PStr (ustr ''Hi!''))]])"
proof -
  have keys: "\<forall>kv\<in>set (found_items content). fst kv \<in> set salvage_keys"
    by (auto simp: found_items_def dest: findall_keys)
  have g: "\<forall>items item. regex_scraper out ucd filename content = Inr (PList items) \<and>
      item \<in> set items \<longrightarrow>
      (\<exists>key raw v. (key, raw) \<in> set (found_items content) \<and> clean_value ucd raw = Inr v \<and>
         item = PDict [(key, PStr v)] \<and> key \<in> set salvage_keys \<and>
         2 \<le> length v \<and> \<not> py_isdigit ucd v \<and> \<not> list_all is_ascii_digit v)"
  proof (intro allI impI)
    fix items item
    assume a: "regex_scraper out ucd filename content = Inr (PList items) \<and> item \<in> set items"
    then have e: "extract_items ucd (found_items content) [] = Inr items"
      by (blast dest: regex_scraper_Inr)
    from extract_items_sound [OF e, of item] a obtain key raw v where
      kv: "(key, raw) \<in> set (found_items content)" "clean_value ucd raw = Inr v"
        "item = PDict [(key, PStr v)]" "2 \<le> length v" "\<not> py_isdigit ucd v"
      by auto
    from kv(1) keys have k: "key \<in> set salvage_keys" by force
    from kv(4) have "v \<noteq> []" by auto
    with kv(5) have "\<not> list_all is_ascii_digit v" using isdigit_ascii by blast
    with kv k show "\<exists>key raw v. (key, raw) \<in> set (found_items content) \<and>
         clean_value ucd raw = Inr v \<and> item = PDict [(key, PStr v)] \<and> key \<in> set salvage_keys \<and>
         2 \<le> length v \<and> \<not> py_isdigit ucd v \<and> \<not> list_all is_ascii_digit v"
      by blast
  qed
  have h: "\<forall>items key raw v. regex_scraper out ucd filename content = Inr (PList items) \<and>
      (key, raw) \<in> set (found_items content) \<and> clean_value ucd raw = Inr v \<and>
      2 \<le> length v \<and> \<not> py_isdigit ucd v \<longrightarrow> PDict [(key, PStr v)] \<in> set items"
  proof (intro allI impI)
    fix items key raw v
    assume a: "regex_scraper out ucd filename content = Inr (PList items) \<and>
      (key, raw) \<in> set (found_items content) \<and> clean_value ucd raw = Inr v \<and>
      2 \<le> length v \<and> \<not> py_isdigit ucd v"
    then have e: "extract_items ucd (found_items content) [] = Inr items"
      by (blast dest: regex_scraper_Inr)
    from extract_items_complete [OF e] a show "PDict [(key, PStr v)] \<in> set items" by blast
  qed
  have s: "strict_parse (ustr ''\"query\": \"What is 2+2?\", \"id\": \"42\"'') = Inl ValueError"
    by (simp add: text_eval json_eval)
  have x: "extract_items ucd (found_items (ustr ''\"query\": \"What is 2+2?\", \"id\": \"42\"'')) [] =
     Inr [PDict [(ustr ''query'', PStr (ustr ''What is 2+2?''))]]"
    by (simp add: text_eval salvage_eval is_ascii_digit_def)
  have r: "regex_scraper utf8_console ucd CHAT_FILE_NAME
     (ustr ''\"query\": \"What is 2+2?\", \"id\": \"42\"'') =
     Inr (PList [PDict [(ustr ''query'', PStr (ustr ''What is 2+2?''))]])"
    by (simp add: regex_scraper_def x console_eval)
  have l: "load_robust_json utf8_console exn_str ucd CHAT_FILE_NAME
     (Inr (ustr ''\"query\": \"What is 2+2?\", \"id\": \"42\"'')) =
     Inr (PList [PDict [(ustr ''query'', PStr (ustr ''What is 2+2?''))]])"
    using s r by (simp add: load_robust_json_cases console_eval)
  have x2: "extract_items ucd (found_items
      (ustr ''\"text\": \"'' @ [92] @ ustr ''x34'' @ [92] @ ustr ''x32\", \"message\": \"Hi'' @
       [92] @ ustr ''u0021\"'')) [] = Inr [PDict [(ustr ''message'', PStr (ustr ''Hi!''))]]"
    by (simp add: text_eval salvage_eval is_ascii_digit_def hex_escape_def hex_digit_def)
  have r2: "regex_scraper utf8_console ucd CHAT_FILE_NAME
     (ustr ''\"text\": \"'' @ [92] @ ustr ''x34'' @ [92] @ ustr ''x32\", \"message\": \"Hi'' @
      [92] @ ustr ''u0021\"'') =
     Inr (PList [PDict [(ustr ''message'', PStr (ustr ''Hi!''))]])"
    using x2 by (simp add: regex_scraper_def console_eval)
  show ?thesis by (intro conjI g h salvage_keys_def r l r2)
qed

theorem salvage_items_witness:
  "(ustr ''query'', ustr ''What is 2+2?'') \<in>
     set (found_items (ustr ''\"query\": \"What is 2+2?\", \"id\": \"42\"'')) \<and>
   clean_value \<lparr>digit_char = (\<lambda>c. False), lookup_name = (\<lambda>n. None)\<rparr> (ustr ''What is 2+2?'') =
     Inr (ustr ''What is 2+2?'') \<and>
   2 \<le> length (ustr ''What is 2+2?'') \<and>
   \<not> py_isdigit \<lparr>digit_char = (\<lambda>c. False), lookup_name = (\<lambda>n. None)\<rparr> (ustr ''What is 2+2?'') \<and>
   regex_scraper utf8_console \<lparr>digit_char = (\<lambda>c. False), lookup_name = (\<lambda>n. None)\<rparr>
     CHAT_FILE_NAME (ustr ''\"query\": \"What is 2+2?\", \"id\": \"42\"'') =
     Inr (PList [PDict [(ustr ''query'', PStr (ustr ''What is 2+2?''))]])"
proof -
  let ?ucd = "\<lparr>digit_char = (\<lambda>c. False), lookup_name = (\<lambda>n. None)\<rparr>"
  let ?c = "ustr ''\"query\": \"What is 2+2?\", \"id\": \"42\"''"
  let ?i = "PDict [(ustr ''query'', PStr (ustr ''What is 2+2?''))]"
  note t = salvage_items [of utf8_console ?ucd CHAT_FILE_NAME ?c "\<lambda>e. []"]
  from t have r: "regex_scraper utf8_console ?ucd CHAT_FILE_NAME ?c = Inr (PList [?i])" by blast
  from t have "regex_scraper utf8_console ?ucd CHAT_FILE_NAME ?c = Inr (PList [?i]) \<and>
      ?i \<in> set [?i] \<longrightarrow>
      (\<exists>key raw v. (key, raw) \<in> set (found_items ?c) \<and> clean_value ?ucd raw = Inr v \<and>
         ?i = PDict [(key, PStr v)] \<and> key \<in> set salvage_keys \<and>
         2 \<le> length v \<and> \<not> py_isdigit ?ucd v \<and> \<not> list_all is_ascii_digit v)"
    by blast
  with r obtain raw where
    "(ustr ''query'', raw) \<in> set (found_items ?c)"
    "clean_value ?ucd raw = Inr (ustr ''What is 2+2?'')"
    "2 \<le> length (ustr ''What is 2+2?'')" "\<not> py_isdigit ?ucd (ustr ''What is 2+2?'')"
    by auto
  moreover have "found_items ?c = [(ustr ''query'', ustr ''What is 2+2?'')]"
    by (simp add: text_eval salvage_eval)
  ultimately show ?thesis using r by simp
qed

text \<open>
  C5. The claim is that well-formed input is parsed as \<^verbatim>\<open>json.loads\<close> parses it. The
  text \<^verbatim>\<open>["a b"]\<close> with the line separator U+2028 between the two letters is
  well-formed and has no comment line: \<^verbatim>\<open>json.loads\<close> gives the list of the one string.
  \<^verbatim>\<open>splitlines\<close> cuts the text at that character and the lines are joined with a line
  feed, which no string may contain, so strategy 1 fails and the tolerant parser returns
  the empty list of the salvage.
\<close>

theorem strict_parse_line_separator:
  "json_loads (ustr ''[\"a'' @ [8232] @ ustr ''b\"]'') = Inr (PList [PStr [97, 8232, 98]]) \<and>
   clean_lines (ustr ''[\"a'' @ [8232] @ ustr ''b\"]'') = [ustr ''[\"a'', ustr ''b\"]''] \<and>
   strict_parse (ustr ''[\"a'' @ [8232] @ ustr ''b\"]'') = Inl ValueError \<and>
   load_robust_json utf8_console exn_str ucd CHAT_FILE_NAME
     (Inr (ustr ''[\"a'' @ [8232] @ ustr ''b\"]'')) = Inr (PList [])"
proof -
  have j: "json_loads (ustr ''[\"a'' @ [8232] @ ustr ''b\"]'') = Inr (PList [PStr [97, 8232, 98]])"
    by (simp add: text_eval json_eval)
  have c: "clean_lines (ustr ''[\"a'' @ [8232] @ ustr ''b\"]'') = [ustr ''[\"a'', ustr ''b\"]'']"
    by (simp add: text_eval)
  have s: "strict_parse (ustr ''[\"a'' @ [8232] @ ustr ''b\"]'') = Inl ValueError"
    by (simp add: text_eval json_eval)
  have x: "extract_items ucd (found_items (ustr ''[\"a'' @ [8232] @ ustr ''b\"]'')) [] = Inr []"
    by (simp add: text_eval salvage_eval)
  have r: "regex_scraper utf8_console ucd CHAT_FILE_NAME (ustr ''[\"a'' @ [8232] @ ustr ''b\"]'') =
      Inr (PList [])"
    using x by (simp add: regex_scraper_def console_eval)
  have l: "load_robust_json utf8_console exn_str ucd CHAT_FILE_NAME
     (Inr (ustr ''[\"a'' @ [8232] @ ustr ''b\"]'')) = Inr (PList [])"
    using s r by (simp add: load_robust_json_cases console_eval)
  show ?thesis by (intro conjI j c s l)
qed

lemma regex_scraper_list:
  "regex_scraper out ucd filename content = Inr v \<Longrightarrow> \<exists>items. v = PList items"
  by (auto simp: regex_scraper_def split: option.splits sum.splits if_splits)

lemma critical_error_list: "critical_error out exn_str filename e = Inr v \<Longrightarrow> v = PList []"
  by (auto simp: critical_error_def split: option.splits)

lemma load_robust_json_quiet_Inr:
  "\<forall>t. out t = None \<Longrightarrow> \<exists>v. load_robust_json out exn_str ucd filename file = Inr v"
proof -
  assume q: "\<forall>t. out t = None"
  show ?thesis
  proof (cases "load_robust_json out exn_str ucd filename file")
    case (Inl e)
    then have "\<exists>t. out t = Some e" by (rule load_robust_json_Inl)
    with q show ?thesis by simp
  next
    case (Inr v)
    then show ?thesis by blast
  qed
qed

text \<open>
  C10, as amended. The tolerant parser returns None exactly when its first message is
  printed and strategy 1 parses the text, comment lines removed, to the value
  \<^verbatim>\<open>null\<close>; what it returns on a failure (the file cannot be read, strategy 1 fails) is a
  list, never None. The driver ends in its branch "Could not load data" exactly when both
  loads return, one of them None, and the messages are printed; when both return a value
  other than None it goes on to the pairs. So on a console that raises nothing the guard
  of the driver is false exactly when one of the two files parses to \<^verbatim>\<open>null\<close>, and in
  every other case the pipeline goes on to the pairs.
\<close>

theorem load_robust_json_none:
  "(load_robust_json out exn_str ucd filename file = Inr PNone \<longleftrightarrow>
      out (msg_loading filename) = None \<and>
      (\<exists>content. file = Inr content \<and> strict_parse content = Inr PNone)) \<and>
   (\<forall>e v. file = Inl e \<and> load_robust_json out exn_str ucd filename file = Inr v \<longrightarrow>
      v = PList []) \<and>
   (\<forall>content e v. file = Inr content \<and> strict_parse content = Inl e \<and>
      load_robust_json out exn_str ucd filename file = Inr v \<longrightarrow> (\<exists>items. v = PList items)) \<and>
   (main out exn_str ucd repr report chat_file context_file = CouldNotLoad \<longleftrightarrow>
      out msg_starting = None \<and>
      (\<exists>x y. load_robust_json out exn_str ucd CHAT_FILE_NAME chat_file = Inr x \<and>
         load_robust_json out exn_str ucd CONTEXT_FILE_NAME context_file = Inr y \<and>
         (x = PNone \<or> y = PNone)) \<and>
      out msg_could_not_load = None) \<and>
   (\<forall>x y. out msg_starting = None \<and>
      load_robust_json out exn_str ucd CHAT_FILE_NAME chat_file = Inr x \<and>
      load_robust_json out exn_str ucd CONTEXT_FILE_NAME context_file = Inr y \<and>
      x \<noteq> PNone \<and> y \<noteq> PNone \<longrightarrow>
      (\<exists>outs err. main out exn_str ucd repr report chat_file context_file = Ran outs err)) \<and>
   ((\<forall>t. out t = None) \<longrightarrow>
      (main out exn_str ucd repr report chat_file context_file = CouldNotLoad \<longleftrightarrow>
         load_robust_json out exn_str ucd CHAT_FILE_NAME chat_file = Inr PNone \<or>
         load_robust_json out exn_str ucd CONTEXT_FILE_NAME context_file = Inr PNone) \<and>
      (load_robust_json out exn_str ucd CHAT_FILE_NAME chat_file \<noteq> Inr PNone \<and>
       load_robust_json out exn_str ucd CONTEXT_FILE_NAME context_file \<noteq> Inr PNone \<longrightarrow>
         (\<exists>outs err. main out exn_str ucd repr report chat_file context_file = Ran outs err)))"
proof -
  let ?load = "load_robust_json out exn_str ucd filename file"
  let ?lc = "load_robust_json out exn_str ucd CHAT_FILE_NAME chat_file"
  let ?lx = "load_robust_json out exn_str ucd CONTEXT_FILE_NAME context_file"
  let ?main = "main out exn_str ucd repr report chat_file context_file"
  have a: "?load = Inr PNone \<longleftrightarrow>
      out (msg_loading filename) = None \<and>
      (\<exists>content. file = Inr content \<and> strict_parse content = Inr PNone)"
    by (auto simp: load_robust_json_cases split: option.splits sum.splits
        dest: regex_scraper_list critical_error_list)
  have b: "\<forall>e v. file = Inl e \<and> ?load = Inr v \<longrightarrow> v = PList []"
    by (auto simp: load_robust_json_cases split: option.splits dest: critical_error_list)
  have c: "\<forall>content e v. file = Inr content \<and> strict_parse content = Inl e \<and> ?load = Inr v \<longrightarrow>
      (\<exists>items. v = PList items)"
    by (auto simp: load_robust_json_cases split: option.splits sum.splits
        dest: regex_scraper_list critical_error_list)
  have d: "?main = CouldNotLoad \<longleftrightarrow>
      out msg_starting = None \<and>
      (\<exists>x y. ?lc = Inr x \<and> ?lx = Inr y \<and> (x = PNone \<or> y = PNone)) \<and>
      out msg_could_not_load = None"
    by (cases ?lc; cases ?lx)
       (auto simp: main_def Let_def split: option.splits prod.splits)
  have e: "\<forall>x y. out msg_starting = None \<and> ?lc = Inr x \<and> ?lx = Inr y \<and> x \<noteq> PNone \<and> y \<noteq> PNone \<longrightarrow>
      (\<exists>outs err. ?main = Ran outs err)"
    by (auto simp: main_def Let_def split: prod.splits)
  have f: "(\<forall>t. out t = None) \<longrightarrow>
      (?main = CouldNotLoad \<longleftrightarrow> ?lc = Inr PNone \<or> ?lx = Inr PNone) \<and>
      (?lc \<noteq> Inr PNone \<and> ?lx \<noteq> Inr PNone \<longrightarrow> (\<exists>outs err. ?main = Ran outs err))"
  proof (intro impI)
    assume q: "\<forall>t. out t = None"
    obtain x where x: "?lc = Inr x" using load_robust_json_quiet_Inr [OF q] by blast
    obtain y where y: "?lx = Inr y" using load_robust_json_quiet_Inr [OF q] by blast
    from q have s: "out msg_starting = None" "out msg_could_not_load = None" by simp_all
    show "(?main = CouldNotLoad \<longleftrightarrow> ?lc = Inr PNone \<or> ?lx = Inr PNone) \<and>
      (?lc \<noteq> Inr PNone \<and> ?lx \<noteq> Inr PNone \<longrightarrow> (\<exists>outs err. ?main = Ran outs err))"
      using d e x y s by auto
  qed
  show ?thesis by (intro conjI a b c d e f)
qed

theorem load_robust_json_none_witness:
  "load_robust_json utf8_console (\<lambda>e. [])
     \<lparr>digit_char = (\<lambda>c. False), lookup_name = (\<lambda>n. None)\<rparr> CHAT_FILE_NAME (Inr (ustr ''[]'')) \<noteq>
     Inr PNone \<and>
   (\<exists>outs err. main (\<lambda>t. None) (\<lambda>e. [])
      \<lparr>digit_char = (\<lambda>c. False), lookup_name = (\<lambda>n. None)\<rparr> (\<lambda>v. []) (\<lambda>i. [])
      (Inr (ustr ''[]'')) (Inl OSError) = Ran outs err)"
proof -
  let ?ucd = "\<lparr>digit_char = (\<lambda>c. False), lookup_name = (\<lambda>n. None)\<rparr>"
  have s: "strict_parse (ustr ''[]'') = Inr (PList [])"
    by (simp add: text_eval json_eval)
  have q: "\<forall>t. (\<lambda>t::pystr. None::py_exn option) t = None" by simp
  have n1: "load_robust_json (\<lambda>t. None) (\<lambda>e. []) ?ucd CHAT_FILE_NAME (Inr (ustr ''[]'')) \<noteq> Inr PNone"
    using load_robust_json_none [of "\<lambda>t. None" "\<lambda>e. []" ?ucd CHAT_FILE_NAME "Inr (ustr ''[]'')"] s
    by simp
  have n2: "load_robust_json (\<lambda>t. None) (\<lambda>e. []) ?ucd CONTEXT_FILE_NAME (Inl OSError) \<noteq> Inr PNone"
    using load_robust_json_none [of "\<lambda>t. None" "\<lambda>e. []" ?ucd CONTEXT_FILE_NAME "Inl OSError"]
    by simp
  have n3: "load_robust_json utf8_console (\<lambda>e. []) ?ucd CHAT_FILE_NAME (Inr (ustr ''[]'')) \<noteq> Inr PNone"
    using load_robust_json_none [of utf8_console "\<lambda>e. []" ?ucd CHAT_FILE_NAME "Inr (ustr ''[]'')"] s
    by simp
  show ?thesis
    using load_robust_json_none [of "\<lambda>t. None" "\<lambda>e. []" ?ucd CHAT_FILE_NAME "Inr (ustr ''[]'')"
        "\<lambda>v. []" "\<lambda>i. []" "Inr (ustr ''[]'')" "Inl OSError"] q n1 n2 n3
    by simp
qed

text \<open>
  The claim as it stands fails for a chat file that holds \<^verbatim>\<open>null\<close>: the tolerant parser
  returns None and the driver takes the branch "Could not load data".
\<close>

theorem load_robust_json_none_counterexample:
  "load_robust_json utf8_console (\<lambda>e. [])
     \<lparr>digit_char = (\<lambda>c. False), lookup_name = (\<lambda>n. None)\<rparr> CHAT_FILE_NAME
     (Inr (ustr ''null'')) = Inr PNone \<and>
   main utf8_console (\<lambda>e. []) \<lparr>digit_char = (\<lambda>c. False), lookup_name = (\<lambda>n. None)\<rparr>
     (\<lambda>v. []) (\<lambda>i. []) (Inr (ustr ''null'')) (Inr (ustr ''[]'')) = CouldNotLoad"
proof -
  have a: "strict_parse (ustr ''null'') = Inr PNone"
    by (simp add: text_eval json_eval)
  have b: "strict_parse (ustr ''[]'') = Inr (PList [])"
    by (simp add: text_eval json_eval)
  show ?thesis
    using a b by (simp add: load_robust_json_cases main_def console_eval)
qed

section \<open>Batch loop: properties\<close>

lemma print_all_append:
  "print_all out (ts @ us) = None \<longleftrightarrow> print_all out ts = None \<and> print_all out us = None"
  by (induction ts) (auto split: option.splits)

lemma process_pair_dict:
  "process_pair out repr report i (PDict d) ctx =
     (if truthy (resolve_query d) \<and> 5 < length (py_str repr (resolve_query d)) then
        (case print_all out [msg_evaluating i, msg_query repr (resolve_query d)] of
           Some e \<Rightarrow> (Skipped, Some e)
         | None \<Rightarrow>
             (Evaluated (resolve_query d) (resolve_context repr ctx) (forwarded_response repr d),
              print_all out [msg_result, report i, msg_rule]))
      else (Skipped, None))"
  by (simp add: process_pair_def gate_def Let_def)

lemma process_pair_Evaluated:
  "fst (process_pair out repr report i chat ctx) = Evaluated q c r \<longleftrightarrow>
     (\<exists>d. chat = PDict d \<and> truthy (resolve_query d) \<and>
        5 < length (py_str repr (resolve_query d)) \<and>
        out (msg_evaluating i) = None \<and> out (msg_query repr (resolve_query d)) = None \<and>
        q = resolve_query d \<and> c = resolve_context repr ctx \<and> r = forwarded_response repr d)"
proof (cases chat)
  case (PDict d)
  show ?thesis
    unfolding PDict process_pair_dict
    by (auto split: option.splits)
qed (auto simp: process_pair_def)

lemma process_pair_Skipped:
  "\<not> (truthy (resolve_query d) \<and> 5 < length (py_str repr (resolve_query d))) \<Longrightarrow>
   process_pair out repr report i (PDict d) ctx = (Skipped, None)"
  by (auto simp: process_pair_dict)

text \<open>The loop over a list of indices in range, pair by pair.\<close>

lemma pair_loop_nth:
  "pair_loop out repr report cl xl is = (outs, err) \<Longrightarrow>
   \<forall>i\<in>set is. i < length cl \<and> i < length xl \<Longrightarrow>
   length outs \<le> length is \<and>
   (\<forall>k<length outs.
      fst (process_pair out repr report (is ! k) (cl ! (is ! k)) (xl ! (is ! k))) = outs ! k) \<and>
   (\<forall>k. Suc k < length outs \<longrightarrow>
      snd (process_pair out repr report (is ! k) (cl ! (is ! k)) (xl ! (is ! k))) = None) \<and>
   (err = None \<longrightarrow> length outs = length is \<and>
      (\<forall>k<length outs.
         snd (process_pair out repr report (is ! k) (cl ! (is ! k)) (xl ! (is ! k))) = None)) \<and>
   (err \<noteq> None \<longrightarrow> outs \<noteq> [] \<and>
      snd (process_pair out repr report (is ! (length outs - 1)) (cl ! (is ! (length outs - 1)))
             (xl ! (is ! (length outs - 1)))) = err)"
proof (induction "is" arbitrary: outs err)
  case Nil
  then show ?case by simp
next
  case (Cons i rest)
  from Cons.prems(2) have i: "i < length cl" "i < length xl" by simp_all
  obtain oc e where p: "process_pair out repr report i (cl ! i) (xl ! i) = (oc, e)"
    by (cases "process_pair out repr report i (cl ! i) (xl ! i)")
  show ?case
  proof (cases e)
    case (Some x)
    with Cons.prems(1) i p have "outs = [oc]" "err = Some x" by (simp_all add: py_index_def)
    with p Some show ?thesis by simp
  next
    case None
    obtain outs' err' where r: "pair_loop out repr report cl xl rest = (outs', err')"
      by (cases "pair_loop out repr report cl xl rest")
    with Cons.prems(1) i p None have o: "outs = oc # outs'" "err = err'"
      by (simp_all add: py_index_def)
    from Cons.prems(2) have "\<forall>j\<in>set rest. j < length cl \<and> j < length xl" by simp
    from Cons.IH [OF r this] have ih:
      "length outs' \<le> length rest"
      "\<forall>k<length outs'.
         fst (process_pair out repr report (rest ! k) (cl ! (rest ! k)) (xl ! (rest ! k))) = outs' ! k"
      "\<forall>k. Suc k < length outs' \<longrightarrow>
         snd (process_pair out repr report (rest ! k) (cl ! (rest ! k)) (xl ! (rest ! k))) = None"
      "err' = None \<longrightarrow> length outs' = length rest \<and>
         (\<forall>k<length outs'.
            snd (process_pair out repr report (rest ! k) (cl ! (rest ! k)) (xl ! (rest ! k))) = None)"
      "err' \<noteq> None \<longrightarrow> outs' \<noteq> [] \<and>
         snd (process_pair out repr report (rest ! (length outs' - 1))
                (cl ! (rest ! (length outs' - 1))) (xl ! (rest ! (length outs' - 1)))) = err'"
      by blast+
    have a: "length outs \<le> length (i # rest)" using o ih(1) by simp
    have b: "\<forall>k<length outs.
      fst (process_pair out repr report ((i # rest) ! k) (cl ! ((i # rest) ! k))
             (xl ! ((i # rest) ! k))) = outs ! k"
    proof (intro allI impI)
      fix k assume "k < length outs"
      then show "fst (process_pair out repr report ((i # rest) ! k) (cl ! ((i # rest) ! k))
             (xl ! ((i # rest) ! k))) = outs ! k"
        using o p ih(2) by (cases k) simp_all
    qed
    have c: "\<forall>k. Suc k < length outs \<longrightarrow>
      snd (process_pair out repr report ((i # rest) ! k) (cl ! ((i # rest) ! k))
             (xl ! ((i # rest) ! k))) = None"
    proof (intro allI impI)
      fix k assume "Suc k < length outs"
      then show "snd (process_pair out repr report ((i # rest) ! k) (cl ! ((i # rest) ! k))
             (xl ! ((i # rest) ! k))) = None"
        using o p None ih(3) by (cases k) simp_all
    qed
    have d: "err = None \<longrightarrow> length outs = length (i # rest) \<and>
      (\<forall>k<length outs.
         snd (process_pair out repr report ((i # rest) ! k) (cl ! ((i # rest) ! k))
                (xl ! ((i # rest) ! k))) = None)"
    proof (intro impI conjI allI)
      assume en: "err = None"
      with o ih(4) show "length outs = length (i # rest)" by simp
      fix k assume "k < length outs"
      then show "snd (process_pair out repr report ((i # rest) ! k) (cl ! ((i # rest) ! k))
                (xl ! ((i # rest) ! k))) = None"
        using en o p None ih(4) by (cases k) simp_all
    qed
    have e: "err \<noteq> None \<longrightarrow> outs \<noteq> [] \<and>
      snd (process_pair out repr report ((i # rest) ! (length outs - 1))
             (cl ! ((i # rest) ! (length outs - 1))) (xl ! ((i # rest) ! (length outs - 1)))) = err"
    proof (intro impI)
      assume en: "err \<noteq> None"
      with o ih(5) have ne: "outs' \<noteq> []" and
        s: "snd (process_pair out repr report (rest ! (length outs' - 1))
                (cl ! (rest ! (length outs' - 1))) (xl ! (rest ! (length outs' - 1)))) = err"
        by simp_all
      from ne obtain m where m: "length outs' = Suc m" by (cases outs') simp_all
      with o s show "outs \<noteq> [] \<and>
        snd (process_pair out repr report ((i # rest) ! (length outs - 1))
             (cl ! ((i # rest) ! (length outs - 1))) (xl ! ((i # rest) ! (length outs - 1)))) = err"
        by simp
    qed
    show ?thesis by (intro conjI a b c d e)
  qed
qed

lemma run_pairs_nth:
  "run_pairs out repr report chat_list context_list = (outs, err) \<Longrightarrow>
   length outs \<le> min (length chat_list) (length context_list) \<and>
   (\<forall>i<length outs.
      fst (process_pair out repr report i (chat_list ! i) (context_list ! i)) = outs ! i) \<and>
   (\<forall>i. Suc i < length outs \<longrightarrow>
      snd (process_pair out repr report i (chat_list ! i) (context_list ! i)) = None) \<and>
   (err = None \<longrightarrow> length outs = min (length chat_list) (length context_list) \<and>
      (\<forall>i<length outs.
         snd (process_pair out repr report i (chat_list ! i) (context_list ! i)) = None)) \<and>
   (\<forall>i. Suc i = length outs \<and> err \<noteq> None \<longrightarrow>
      snd (process_pair out repr report i (chat_list ! i) (context_list ! i)) = err)"
proof -
  assume r: "run_pairs out repr report chat_list context_list = (outs, err)"
  define n where "n = min (length chat_list) (length context_list)"
  have rng: "\<forall>i\<in>set [0..<n]. i < length chat_list \<and> i < length context_list"
    by (simp add: n_def)
  show ?thesis
  proof (cases "out (msg_processing n)")
    case (Some e)
    with r have "outs = []" "err = Some e" by (simp_all add: run_pairs_def Let_def n_def)
    then show ?thesis by simp
  next
    case None
    with r have pl: "pair_loop out repr report chat_list context_list [0..<n] = (outs, err)"
      by (simp add: run_pairs_def Let_def n_def)
    note p = pair_loop_nth [OF pl rng]
    from p have len: "length outs \<le> n" by simp
    have idx: "\<And>k. k < length outs \<Longrightarrow> [0..<n] ! k = k"
      using len by simp
    have a: "\<forall>i<length outs.
        fst (process_pair out repr report i (chat_list ! i) (context_list ! i)) = outs ! i"
    proof (intro allI impI)
      fix i assume i: "i < length outs"
      from p i have "fst (process_pair out repr report ([0..<n] ! i) (chat_list ! ([0..<n] ! i))
          (context_list ! ([0..<n] ! i))) = outs ! i" by blast
      with idx [OF i]
      show "fst (process_pair out repr report i (chat_list ! i) (context_list ! i)) = outs ! i"
        by simp
    qed
    have b: "\<forall>i. Suc i < length outs \<longrightarrow>
        snd (process_pair out repr report i (chat_list ! i) (context_list ! i)) = None"
    proof (intro allI impI)
      fix i assume s: "Suc i < length outs"
      then have i: "i < length outs" by simp
      from p s have "snd (process_pair out repr report ([0..<n] ! i) (chat_list ! ([0..<n] ! i))
          (context_list ! ([0..<n] ! i))) = None" by blast
      with idx [OF i]
      show "snd (process_pair out repr report i (chat_list ! i) (context_list ! i)) = None"
        by simp
    qed
    have c: "err = None \<longrightarrow> length outs = n \<and>
        (\<forall>i<length outs.
           snd (process_pair out repr report i (chat_list ! i) (context_list ! i)) = None)"
    proof (intro impI conjI allI)
      assume en: "err = None"
      with p show "length outs = n" by simp
      fix i assume i: "i < length outs"
      from p en i have "snd (process_pair out repr report ([0..<n] ! i)
          (chat_list ! ([0..<n] ! i)) (context_list ! ([0..<n] ! i))) = None" by blast
      with idx [OF i]
      show "snd (process_pair out repr report i (chat_list ! i) (context_list ! i)) = None"
        by simp
    qed
    have d: "\<forall>i. Suc i = length outs \<and> err \<noteq> None \<longrightarrow>
        snd (process_pair out repr report i (chat_list ! i) (context_list ! i)) = err"
    proof (intro allI impI)
      fix i assume s: "Suc i = length outs \<and> err \<noteq> None"
      then have i: "i < length outs" by linarith
      from s have l: "length outs - 1 = i" by linarith
      from p s have "snd (process_pair out repr report ([0..<n] ! (length outs - 1))
          (chat_list ! ([0..<n] ! (length outs - 1)))
          (context_list ! ([0..<n] ! (length outs - 1)))) = err" by blast
      with idx [OF i] l
      show "snd (process_pair out repr report i (chat_list ! i) (context_list ! i)) = err"
        by simp
    qed
    from len a b c d show ?thesis unfolding n_def by blast
  qed
qed

text \<open>
  C3, as amended. In a run of the batch loop, the evaluator is called on the pair with
  index i if and only if its chat item is a mapping, the resolved query is truthy, its
  string is longer than 5 characters, and the two lines printed between the gate and the
  call (the heading of the pair, and the first 100 characters of the query) are printed
  without an exception. Every call is on a pair that passed the gate, with the resolved
  query, the resolved context and the response of that pair. A pair whose chat item is a
  mapping and which fails the gate is skipped, with no call and no error: the loop goes on
  to the next pair, or ends without an exception when the pair was the last.
\<close>

theorem acceptance_gate:
  "run_pairs out repr report chat_list context_list = (outs, err) \<Longrightarrow>
   (\<forall>i<length outs. (\<exists>q c r. outs ! i = Evaluated q c r) \<longleftrightarrow>
      (\<exists>d. chat_list ! i = PDict d \<and> truthy (resolve_query d) \<and>
         5 < length (py_str repr (resolve_query d)) \<and>
         out (msg_evaluating i) = None \<and> out (msg_query repr (resolve_query d)) = None)) \<and>
   (\<forall>i<length outs. \<forall>q c r. outs ! i = Evaluated q c r \<longrightarrow>
      truthy q \<and> 5 < length (py_str repr q) \<and>
      (\<exists>d. chat_list ! i = PDict d \<and> q = resolve_query d \<and>
         c = resolve_context repr (context_list ! i) \<and> r = forwarded_response repr d)) \<and>
   (\<forall>i<length outs. \<forall>d. chat_list ! i = PDict d \<and>
      \<not> (truthy (resolve_query d) \<and> 5 < length (py_str repr (resolve_query d))) \<longrightarrow>
      outs ! i = Skipped \<and>
      (Suc i < length outs \<or>
       (err = None \<and> Suc i = min (length chat_list) (length context_list)))) \<and>
   length outs \<le> min (length chat_list) (length context_list)"
proof -
  assume r: "run_pairs out repr report chat_list context_list = (outs, err)"
  note n = run_pairs_nth [OF r]
  from n have fst_eq: "\<And>i. i < length outs \<Longrightarrow>
      fst (process_pair out repr report i (chat_list ! i) (context_list ! i)) = outs ! i"
    by blast
  have a: "\<forall>i<length outs. (\<exists>q c r. outs ! i = Evaluated q c r) \<longleftrightarrow>
      (\<exists>d. chat_list ! i = PDict d \<and> truthy (resolve_query d) \<and>
         5 < length (py_str repr (resolve_query d)) \<and>
         out (msg_evaluating i) = None \<and> out (msg_query repr (resolve_query d)) = None)"
  proof (intro allI impI)
    fix i assume i: "i < length outs"
    show "(\<exists>q c r. outs ! i = Evaluated q c r) \<longleftrightarrow>
      (\<exists>d. chat_list ! i = PDict d \<and> truthy (resolve_query d) \<and>
         5 < length (py_str repr (resolve_query d)) \<and>
         out (msg_evaluating i) = None \<and> out (msg_query repr (resolve_query d)) = None)"
      unfolding fst_eq [OF i, symmetric] process_pair_Evaluated by blast
  qed
  have b: "\<forall>i<length outs. \<forall>q c r. outs ! i = Evaluated q c r \<longrightarrow>
      truthy q \<and> 5 < length (py_str repr q) \<and>
      (\<exists>d. chat_list ! i = PDict d \<and> q = resolve_query d \<and>
         c = resolve_context repr (context_list ! i) \<and> r = forwarded_response repr d)"
  proof (intro allI impI)
    fix i q c r assume i: "i < length outs" and e: "outs ! i = Evaluated q c r"
    from e show "truthy q \<and> 5 < length (py_str repr q) \<and>
      (\<exists>d. chat_list ! i = PDict d \<and> q = resolve_query d \<and>
         c = resolve_context repr (context_list ! i) \<and> r = forwarded_response repr d)"
      unfolding fst_eq [OF i, symmetric] process_pair_Evaluated by blast
  qed
  have c: "\<forall>i<length outs. \<forall>d. chat_list ! i = PDict d \<and>
      \<not> (truthy (resolve_query d) \<and> 5 < length (py_str repr (resolve_query d))) \<longrightarrow>
      outs ! i = Skipped \<and>
      (Suc i < length outs \<or>
       (err = None \<and> Suc i = min (length chat_list) (length context_list)))"
  proof (intro allI impI)
    fix i d
    assume i: "i < length outs"
      and g: "chat_list ! i = PDict d \<and>
        \<not> (truthy (resolve_query d) \<and> 5 < length (py_str repr (resolve_query d)))"
    then have p: "process_pair out repr report i (chat_list ! i) (context_list ! i) =
        (Skipped, None)"
      using process_pair_Skipped [of d repr out report i "context_list ! i"] by simp
    with fst_eq [OF i] have s: "outs ! i = Skipped" by simp
    have "Suc i < length outs \<or>
       (err = None \<and> Suc i = min (length chat_list) (length context_list))"
    proof (cases "Suc i < length outs")
      case False
      with i have l: "Suc i = length outs" by simp
      have "err = None"
      proof (rule ccontr)
        assume "err \<noteq> None"
        with n l have "snd (process_pair out repr report i (chat_list ! i) (context_list ! i)) = err"
          by blast
        with p \<open>err \<noteq> None\<close> show False by simp
      qed
      with n l show ?thesis by simp
    qed simp
    with s show "outs ! i = Skipped \<and>
      (Suc i < length outs \<or>
       (err = None \<and> Suc i = min (length chat_list) (length context_list)))" by simp
  qed
  from n have d: "length outs \<le> min (length chat_list) (length context_list)" by simp
  show ?thesis by (intro conjI a b c d)
qed

theorem acceptance_gate_witness:
  "run_pairs utf8_console (\<lambda>v. []) (\<lambda>i. ustr ''{}'')
     [PDict [(ustr ''message'', PStr (ustr ''Hello there, how are you?'')),
             (ustr ''role'', PStr (ustr ''user''))],
      PDict [(ustr ''message'', PStr (ustr ''Hi''))]]
     [PDict [(ustr ''text'', PStr (ustr ''weather context''))], PStr (ustr ''spare'')] =
     ([Evaluated (PStr (ustr ''Hello there, how are you?'')) (ustr ''weather context'')
         (ustr ''Generated Response''), Skipped], None) \<and>
   truthy (PStr (ustr ''Hello there, how are you?'')) \<and>
   5 < length (py_str (\<lambda>v. []) (PStr (ustr ''Hello there, how are you?'')))"
proof -
  let ?cl = "[PDict [(ustr ''message'', PStr (ustr ''Hello there, how are you?'')),
             (ustr ''role'', PStr (ustr ''user''))],
      PDict [(ustr ''message'', PStr (ustr ''Hi''))]]"
  let ?xl = "[PDict [(ustr ''text'', PStr (ustr ''weather context''))], PStr (ustr ''spare'')]"
  let ?outs = "[Evaluated (PStr (ustr ''Hello there, how are you?'')) (ustr ''weather context'')
         (ustr ''Generated Response''), Skipped]"
  have r: "run_pairs utf8_console (\<lambda>v. []) (\<lambda>i. ustr ''{}'') ?cl ?xl = (?outs, None)"
    by (simp add: pair_eval)
  from acceptance_gate [OF r] have "\<forall>i<length ?outs. \<forall>q c r. ?outs ! i = Evaluated q c r \<longrightarrow>
      truthy q \<and> 5 < length (py_str (\<lambda>v. []) q) \<and>
      (\<exists>d. ?cl ! i = PDict d \<and> q = resolve_query d \<and>
         c = resolve_context (\<lambda>v. []) (?xl ! i) \<and> r = forwarded_response (\<lambda>v. []) d)"
    by blast
  then have "truthy (PStr (ustr ''Hello there, how are you?'')) \<and>
      5 < length (py_str (\<lambda>v. []) (PStr (ustr ''Hello there, how are you?'')))"
    by fastforce
  with r show ?thesis by blast
qed

text \<open>
  The claim as it stands fails for a query that cannot be printed: the "message" value
  below starts with the surrogate U+D800, it is truthy and has 6 characters, and printing
  it on a UTF-8 console raises UnicodeEncodeError before the evaluator is called.
\<close>

theorem acceptance_gate_counterexample:
  "truthy (resolve_query [(ustr ''message'', PStr (55296 # ustr ''abcde''))]) \<and>
   5 < length (py_str (\<lambda>v. [])
     (resolve_query [(ustr ''message'', PStr (55296 # ustr ''abcde''))])) \<and>
   run_pairs utf8_console (\<lambda>v. []) (\<lambda>i. ustr ''{}'')
     [PDict [(ustr ''message'', PStr (55296 # ustr ''abcde''))]] [PStr (ustr ''ctx'')] =
     ([Skipped], Some UnicodeEncodeError)"
  by (simp add: pair_eval)

lemma pair_loop_quiet:
  "\<forall>i\<in>set is. i < length cl \<and> i < length xl \<and>
      snd (process_pair out repr report i (cl ! i) (xl ! i)) = None \<Longrightarrow>
   pair_loop out repr report cl xl is =
     (map (\<lambda>i. fst (process_pair out repr report i (cl ! i) (xl ! i))) is, None)"
proof (induction "is")
  case Nil
  show ?case by simp
next
  case (Cons i rest)
  then have r: "pair_loop out repr report cl xl rest =
     (map (\<lambda>i. fst (process_pair out repr report i (cl ! i) (xl ! i))) rest, None)"
    by simp
  from Cons.prems have i: "i < length cl" "i < length xl"
    "snd (process_pair out repr report i (cl ! i) (xl ! i)) = None" by simp_all
  obtain oc where "process_pair out repr report i (cl ! i) (xl ! i) = (oc, None)"
    using i(3) by (cases "process_pair out repr report i (cl ! i) (xl ! i)") simp
  with i r show ?case by (simp add: py_index_def)
qed

text \<open>
  C9, as amended. The pairs the driver starts are chat_list[i] with context_list[i] for
  i = 0, 1, ... in increasing order, at most min(len(chat_list), len(context_list)) of
  them, and exactly that many when no exception ends the loop. When every chat item below
  that limit is a mapping and the messages are printed without an exception (the line
  that gives the limit, and the five lines of each pair that passes the gate), the driver
  processes exactly that many pairs, each without an exception; the items beyond the limit
  on the longer side are ignored.
\<close>

theorem run_pairs_spec:
  "(\<forall>outs err. run_pairs out repr report chat_list context_list = (outs, err) \<longrightarrow>
      length outs \<le> min (length chat_list) (length context_list) \<and>
      (\<forall>i<length outs.
         fst (process_pair out repr report i (chat_list ! i) (context_list ! i)) = outs ! i) \<and>
      (err = None \<longrightarrow> length outs = min (length chat_list) (length context_list))) \<and>
   ((\<forall>i<min (length chat_list) (length context_list). \<exists>d. chat_list ! i = PDict d) \<and>
    out (msg_processing (min (length chat_list) (length context_list))) = None \<and>
    (\<forall>i<min (length chat_list) (length context_list). \<forall>d.
       chat_list ! i = PDict d \<and> truthy (resolve_query d) \<and>
       5 < length (py_str repr (resolve_query d)) \<longrightarrow>
       print_all out
         [msg_evaluating i, msg_query repr (resolve_query d), msg_result, report i, msg_rule] =
         None) \<longrightarrow>
    (\<exists>outs. run_pairs out repr report chat_list context_list = (outs, None) \<and>
       length outs = min (length chat_list) (length context_list) \<and>
       (\<forall>i<min (length chat_list) (length context_list).
          process_pair out repr report i (chat_list ! i) (context_list ! i) = (outs ! i, None))))"
proof -
  let ?n = "min (length chat_list) (length context_list)"
  let ?P = "\<lambda>i. process_pair out repr report i (chat_list ! i) (context_list ! i)"
  have a: "\<forall>outs err. run_pairs out repr report chat_list context_list = (outs, err) \<longrightarrow>
      length outs \<le> ?n \<and> (\<forall>i<length outs. fst (?P i) = outs ! i) \<and>
      (err = None \<longrightarrow> length outs = ?n)"
  proof (intro allI impI)
    fix outs err
    assume r: "run_pairs out repr report chat_list context_list = (outs, err)"
    from run_pairs_nth [OF r]
    show "length outs \<le> ?n \<and> (\<forall>i<length outs. fst (?P i) = outs ! i) \<and>
      (err = None \<longrightarrow> length outs = ?n)"
      by blast
  qed
  have b: "(\<forall>i<?n. \<exists>d. chat_list ! i = PDict d) \<and>
    out (msg_processing ?n) = None \<and>
    (\<forall>i<?n. \<forall>d.
       chat_list ! i = PDict d \<and> truthy (resolve_query d) \<and>
       5 < length (py_str repr (resolve_query d)) \<longrightarrow>
       print_all out
         [msg_evaluating i, msg_query repr (resolve_query d), msg_result, report i, msg_rule] =
         None) \<longrightarrow>
    (\<exists>outs. run_pairs out repr report chat_list context_list = (outs, None) \<and>
       length outs = ?n \<and> (\<forall>i<?n. ?P i = (outs ! i, None)))"
  proof (intro impI)
    assume h: "(\<forall>i<?n. \<exists>d. chat_list ! i = PDict d) \<and>
      out (msg_processing ?n) = None \<and>
      (\<forall>i<?n. \<forall>d.
         chat_list ! i = PDict d \<and> truthy (resolve_query d) \<and>
         5 < length (py_str repr (resolve_query d)) \<longrightarrow>
         print_all out
           [msg_evaluating i, msg_query repr (resolve_query d), msg_result, report i, msg_rule] =
           None)"
    have q: "\<And>i. i < ?n \<Longrightarrow> snd (?P i) = None"
    proof -
      fix i assume i: "i < ?n"
      with h obtain d where d: "chat_list ! i = PDict d" by blast
      show "snd (?P i) = None"
      proof (cases "truthy (resolve_query d) \<and> 5 < length (py_str repr (resolve_query d))")
        case True
        with h i d have "print_all out
           ([msg_evaluating i, msg_query repr (resolve_query d)] @
            [msg_result, report i, msg_rule]) = None" by simp
        then have "print_all out [msg_evaluating i, msg_query repr (resolve_query d)] = None"
          and "print_all out [msg_result, report i, msg_rule] = None"
          unfolding print_all_append by simp_all
        with True d show ?thesis by (simp add: process_pair_dict)
      next
        case False
        with d show ?thesis
          using process_pair_Skipped [of d repr out report i "context_list ! i"] by simp
      qed
    qed
    then have "\<forall>i\<in>set [0..<?n].
        i < length chat_list \<and> i < length context_list \<and> snd (?P i) = None"
      by simp
    from pair_loop_quiet [OF this]
    have pl: "pair_loop out repr report chat_list context_list [0..<?n] =
        (map (\<lambda>i. fst (?P i)) [0..<?n], None)" .
    with h have r: "run_pairs out repr report chat_list context_list =
        (map (\<lambda>i. fst (?P i)) [0..<?n], None)"
      by (simp add: run_pairs_def Let_def)
    have "\<forall>i<?n. ?P i = (map (\<lambda>i. fst (?P i)) [0..<?n] ! i, None)"
    proof (intro allI impI)
      fix i assume i: "i < ?n"
      from q [OF i] have "?P i = (fst (?P i), None)" by (cases "?P i") simp
      with i show "?P i = (map (\<lambda>i. fst (?P i)) [0..<?n] ! i, None)" by simp
    qed
    with r show "\<exists>outs. run_pairs out repr report chat_list context_list = (outs, None) \<and>
         length outs = ?n \<and> (\<forall>i<?n. ?P i = (outs ! i, None))"
      by simp
  qed
  show ?thesis by (intro conjI a b)
qed

theorem run_pairs_witness:
  "\<exists>outs. run_pairs utf8_console (\<lambda>v. []) (\<lambda>i. ustr ''{}'')
      [PDict [(ustr ''message'', PStr (ustr ''Hello there, how are you?''))],
       PDict [(ustr ''message'', PStr (ustr ''Hi''))]]
      [PStr (ustr ''one''), PStr (ustr ''two''), PStr (ustr ''three'')] = (outs, None) \<and>
     length outs = 2"
proof -
  let ?cl = "[PDict [(ustr ''message'', PStr (ustr ''Hello there, how are you?''))],
       PDict [(ustr ''message'', PStr (ustr ''Hi''))]]"
  let ?xl = "[PStr (ustr ''one''), PStr (ustr ''two''), PStr (ustr ''three'')]"
  let ?repr = "\<lambda>v::pyval. []::pystr"
  let ?report = "\<lambda>i::nat. ustr ''{}''"
  have n: "min (length ?cl) (length ?xl) = 2" by simp
  have h1: "\<forall>i<min (length ?cl) (length ?xl). \<exists>d. ?cl ! i = PDict d"
  proof (intro allI impI)
    fix i assume "i < min (length ?cl) (length ?xl)"
    then have "i = 0 \<or> i = 1" by auto
    then show "\<exists>d. ?cl ! i = PDict d" by auto
  qed
  have h2: "utf8_console (msg_processing (min (length ?cl) (length ?xl))) = None"
    by (simp add: pair_eval)
  have h3: "\<forall>i<min (length ?cl) (length ?xl). \<forall>d.
       ?cl ! i = PDict d \<and> truthy (resolve_query d) \<and>
       5 < length (py_str ?repr (resolve_query d)) \<longrightarrow>
       print_all utf8_console
         [msg_evaluating i, msg_query ?repr (resolve_query d), msg_result, ?report i, msg_rule] =
         None"
  proof (intro allI impI)
    fix i d
    assume i: "i < min (length ?cl) (length ?xl)"
      and d: "?cl ! i = PDict d \<and> truthy (resolve_query d) \<and>
       5 < length (py_str ?repr (resolve_query d))"
    from i have "i = 0 \<or> i = 1" by auto
    then show "print_all utf8_console
         [msg_evaluating i, msg_query ?repr (resolve_query d), msg_result, ?report i, msg_rule] =
         None"
    proof
      assume "i = 0"
      with d have "d = [(ustr ''message'', PStr (ustr ''Hello there, how are you?''))]" by simp
      with \<open>i = 0\<close> show ?thesis by (simp add: pair_eval)
    next
      assume "i = 1"
      with d have "d = [(ustr ''message'', PStr (ustr ''Hi''))]" by simp
      with d show ?thesis by (simp add: pair_eval)
    qed
  qed
  from run_pairs_spec [of utf8_console ?repr ?report ?cl ?xl] h1 h2 h3
  have "\<exists>outs. run_pairs utf8_console ?repr ?report ?cl ?xl = (outs, None) \<and>
       length outs = min (length ?cl) (length ?xl)"
    by blast
  then show ?thesis by (simp only: n)
qed

text \<open>
  The claim as it stands fails when a chat item is not a mapping: for the lists
  \<^verbatim>\<open>[5]\<close> and \<^verbatim>\<open>[5]\<close> the limit is 1, and the first pair raises AttributeError at
  \<^verbatim>\<open>chat.items()\<close>.
\<close>

theorem run_pairs_counterexample:
  "run_pairs utf8_console (\<lambda>v. []) (\<lambda>i. ustr ''{}'') [PInt 5] [PInt 5] =
     ([Skipped], Some AttributeError) \<and>
   min (length [PInt 5]) (length [PInt 5]) = 1"
  by (simp add: pair_eval)

end
